theory Spec2Isabelle
  imports Complex_Main
begin

section \<open>JavaScript values\<close>

text \<open>
  The values that \<^verbatim>\<open>parseData\<close> builds are JavaScript objects: plain objects, arrays and
  strings (header values, field values, the value returned by \<^verbatim>\<open>JSON.parse\<close>).
  A string is a list of code units, each below 256. A plain object is its list of own properties in
  insertion order. An array is its list of elements (an element that was never assigned
  reads as \<open>Undefined\<close>) together with the named properties that JavaScript allows on
  an array object. Inherited properties (the members of \<^verbatim>\<open>Object.prototype\<close> and
  \<^verbatim>\<open>Array.prototype\<close>) are not part of the model.
\<close>

datatype jv =
    Undefined
  | Null
  | Bool bool
  | Num real
  | Str string
  | Arr "jv list" "(string \<times> jv) list"
  | Obj "(string \<times> jv) list"

fun nullish :: "jv \<Rightarrow> bool" where
  "nullish Undefined = True"
| "nullish Null = True"
| "nullish _ = False"

text \<open>lodash \<^verbatim>\<open>isObject\<close>: true of objects and arrays, false of primitives.\<close>

fun isObject :: "jv \<Rightarrow> bool" where
  "isObject (Arr _ _) = True"
| "isObject (Obj _) = True"
| "isObject _ = False"

fun isArray :: "jv \<Rightarrow> bool" where
  "isArray (Arr _ _) = True"
| "isArray _ = False"

subsection \<open>Property keys\<close>

definition isDigit :: "char \<Rightarrow> bool" where
  "isDigit c = (c \<in> set ''0123456789'')"

definition digitVal :: "char \<Rightarrow> nat" where
  "digitVal c = of_char c - 48"

definition decimalValue :: "string \<Rightarrow> nat" where
  "decimalValue s = foldl (\<lambda>n c. 10 * n + digitVal c) 0 s"

text \<open>lodash \<^verbatim>\<open>reIsUint = /^(?:0|[1-9]\d*)$/\<close>.\<close>

definition reIsUint :: "string \<Rightarrow> bool" where
  "reIsUint s = (s = ''0'' \<or> (s \<noteq> [] \<and> hd s \<noteq> CHR ''0'' \<and> list_all isDigit s))"

text \<open>
  lodash \<^verbatim>\<open>isIndex(value)\<close> on a string, with the default bound \<^verbatim>\<open>MAX_SAFE_INTEGER\<close>
  (\<open>2^53 - 1\<close>).
\<close>

definition isIndex :: "string \<Rightarrow> bool" where
  "isIndex s = (reIsUint s \<and> decimalValue s < 2 ^ 53 - 1)"

text \<open>
  An array index in the sense of the language: a canonical numeric string below
  \<open>2^32 - 1\<close>. Any other key on an array is a named property.
\<close>

definition arrayIndex :: "string \<Rightarrow> nat option" where
  "arrayIndex s = (if reIsUint s \<and> decimalValue s < 2 ^ 32 - 1 then Some (decimalValue s) else None)"

fun assoc_put :: "string \<Rightarrow> jv \<Rightarrow> (string \<times> jv) list \<Rightarrow> (string \<times> jv) list" where
  "assoc_put k v [] = [(k, v)]"
| "assoc_put k v ((k', v') # kvs) =
     (if k = k' then (k, v) # kvs else (k', v') # assoc_put k v kvs)"

text \<open>\<^verbatim>\<open>hasOwnProperty.call(object, key)\<close>.\<close>

fun hasOwn :: "jv \<Rightarrow> string \<Rightarrow> bool" where
  "hasOwn (Obj kvs) k = (map_of kvs k \<noteq> None)"
| "hasOwn (Arr xs ps) k =
     (case arrayIndex k of
        Some i \<Rightarrow> i < length xs
      | None \<Rightarrow> k = ''length'' \<or> map_of ps k \<noteq> None)"
| "hasOwn (Str s) k =
     (case arrayIndex k of
        Some i \<Rightarrow> i < length s
      | None \<Rightarrow> k = ''length'')"
| "hasOwn _ k = False"

text \<open>\<^verbatim>\<open>object[key]\<close>, on own properties.\<close>

fun getProp :: "jv \<Rightarrow> string \<Rightarrow> jv" where
  "getProp (Obj kvs) k = (case map_of kvs k of Some v \<Rightarrow> v | None \<Rightarrow> Undefined)"
| "getProp (Arr xs ps) k =
     (case arrayIndex k of
        Some i \<Rightarrow> (if i < length xs then xs ! i else Undefined)
      | None \<Rightarrow>
          (if k = ''length'' then Num (real (length xs))
           else (case map_of ps k of Some v \<Rightarrow> v | None \<Rightarrow> Undefined)))"
| "getProp (Str s) k =
     (case arrayIndex k of
        Some i \<Rightarrow> (if i < length s then Str [s ! i] else Undefined)
      | None \<Rightarrow> (if k = ''length'' then Num (real (length s)) else Undefined))"
| "getProp _ k = Undefined"

text \<open>
  \<^verbatim>\<open>object[key] = value\<close> on an object or an array. Writing the \<^verbatim>\<open>length\<close> of an array
  (which resizes it or throws a RangeError) is outside the model and leaves the array as
  it is; a primitive is never assigned to, since \<^verbatim>\<open>baseSet\<close> replaces it first.
\<close>

fun assign :: "jv \<Rightarrow> string \<Rightarrow> jv \<Rightarrow> jv" where
  "assign (Obj kvs) k v = Obj (assoc_put k v kvs)"
| "assign (Arr xs ps) k v =
     (case arrayIndex k of
        Some i \<Rightarrow>
          (if i < length xs then Arr (xs[i := v]) ps
           else Arr (xs @ replicate (i - length xs) Undefined @ [v]) ps)
      | None \<Rightarrow> (if k = ''length'' then Arr xs ps else Arr xs (assoc_put k v ps)))"
| "assign o' k v = o'"

section \<open>lodash paths\<close>

text \<open>
  \<^verbatim>\<open>has\<close>, \<^verbatim>\<open>get\<close> and \<^verbatim>\<open>set\<close> are imported from lodash. They read their second
  argument as a property path. The definitions below follow lodash 4.17:
  \<^verbatim>\<open>isKey\<close>, \<^verbatim>\<open>stringToPath\<close>, \<^verbatim>\<open>castPath\<close>, \<^verbatim>\<open>hasPath\<close>, \<^verbatim>\<open>baseGet\<close> and \<^verbatim>\<open>baseSet\<close>.
\<close>

definition pathChar :: "char \<Rightarrow> bool" where
  "pathChar c = (c = CHR ''.'' \<or> c = CHR ''['' \<or> c = CHR '']'')"

definition isWordChar :: "char \<Rightarrow> bool" where
  "isWordChar c =
     (c \<in> set ''abcdefghijklmnopqrstuvwxyzABCDEFGHIJKLMNOPQRSTUVWXYZ0123456789_'')"

definition isQuote :: "char \<Rightarrow> bool" where
  "isQuote c = (c = CHR 0x22 \<or> c = CHR 0x27)"

definition isLineTerminator :: "char \<Rightarrow> bool" where
  "isLineTerminator c = (c = CHR 0x0A \<or> c = CHR 0x0D)"

text \<open>
  The quoted body \<^verbatim>\<open>((?:(?!\2)[^\\]|\\.)*?)\2\]\<close> of a bracket group, after the opening
  quote \<open>q\<close>: the body read so far is \<open>acc\<close>; the result is the body and what follows
  the closing bracket.
\<close>

fun scanQuoted :: "char \<Rightarrow> string \<Rightarrow> string \<Rightarrow> (string \<times> string) option" where
  "scanQuoted q acc [] = None"
| "scanQuoted q acc (c # cs) =
     (if c = CHR 0x5C then
        (case cs of
           [] \<Rightarrow> None
         | d # ds \<Rightarrow> if isLineTerminator d then None else scanQuoted q (acc @ [c, d]) ds)
      else if c = q then
        (case cs of
           [] \<Rightarrow> None
         | d # ds \<Rightarrow> if d = CHR '']'' then Some (acc, ds) else None)
      else scanQuoted q (acc @ [c]) cs)"

text \<open>\<^verbatim>\<open>subString.replace(/\\(\\)?/g, '$1')\<close>.\<close>

fun unescape :: "string \<Rightarrow> string" where
  "unescape [] = []"
| "unescape [c] = (if c = CHR 0x5C then [] else [c])"
| "unescape (c # d # cs) =
     (if c = CHR 0x5C then (if d = CHR 0x5C then d # unescape cs else unescape (d # cs))
      else c # unescape (d # cs))"

text \<open>The number \<^verbatim>\<open>(-?\d+(?:\.\d+)?)\]\<close> of a bracket group, after the opening bracket.\<close>

definition scanNumber :: "string \<Rightarrow> (string \<times> string) option" where
  "scanNumber s =
     (let sign = (if s \<noteq> [] \<and> hd s = CHR ''-'' then ''-'' else '''');
          r0 = drop (length sign) s;
          ds = takeWhile isDigit r0;
          r1 = dropWhile isDigit r0
      in if ds = [] then None
         else (case r1 of
                 [] \<Rightarrow> None
               | c # r2 \<Rightarrow>
                   if c = CHR '']'' then Some (sign @ ds, r2)
                   else if c = CHR ''.'' then
                     (let fs = takeWhile isDigit r2; r3 = dropWhile isDigit r2
                      in if fs = [] then None
                         else (case r3 of
                                 [] \<Rightarrow> None
                               | e # r4 \<Rightarrow>
                                   if e = CHR '']'' then Some (sign @ ds @ ''.'' @ fs, r4)
                                   else None))
                   else None))"

text \<open>
  The second alternative of \<^verbatim>\<open>rePropName\<close>, after the opening bracket: the key that the
  replace callback pushes (\<^verbatim>\<open>quote ? unescaped body : number\<close>) and the rest of the input.
\<close>

definition scanBracket :: "string \<Rightarrow> (string \<times> string) option" where
  "scanBracket s =
     (case scanNumber s of
        Some r \<Rightarrow> Some r
      | None \<Rightarrow>
          (case s of
             [] \<Rightarrow> None
           | q # r \<Rightarrow>
               if isQuote q then
                 (case scanQuoted q [] r of
                    Some (body, rest) \<Rightarrow> Some (unescape body, rest)
                  | None \<Rightarrow> None)
               else None))"

text \<open>
  The third alternative, the lookahead \<^verbatim>\<open>(?=(?:\.|\[\])(?:\.|\[\]|$))\<close>: an empty key.
\<close>

definition emptyKeyAhead :: "string \<Rightarrow> bool" where
  "emptyKeyAhead s =
     (let after = (\<lambda>r. r = [] \<or> hd r = CHR ''.'' \<or> take 2 r = ''[]'')
      in (case s of
            [] \<Rightarrow> False
          | c # r \<Rightarrow>
              if c = CHR ''.'' then after r
              else if c = CHR ''['' then (case r of [] \<Rightarrow> False | d # r' \<Rightarrow> d = CHR '']'' \<and> after r')
              else False))"

lemma scanQuoted_shorter: "scanQuoted q acc s = Some (b, r) \<Longrightarrow> length r < length s"
  by (induction q acc s rule: scanQuoted.induct) (auto split: if_splits list.splits)

lemma scanNumber_shorter: "scanNumber s = Some (b, r) \<Longrightarrow> length r < Suc (length s)"
proof -
  have dw: "\<And>xs c ys. dropWhile isDigit xs = c # ys \<Longrightarrow> length ys < length xs"
    by (metis length_dropWhile_le length_Cons less_Suc_eq_le Suc_le_lessD le_imp_less_Suc not_less_eq)
  assume a: "scanNumber s = Some (b, r)"
  then show ?thesis
    unfolding scanNumber_def Let_def
    by (auto split: if_splits list.splits dest!: dw intro: less_trans)
qed

lemma scanBracket_shorter: "scanBracket s = Some (b, r) \<Longrightarrow> length r < Suc (length s)"
  unfolding scanBracket_def
  by (auto split: option.splits list.splits if_splits
      dest: scanNumber_shorter dest!: scanQuoted_shorter)

text \<open>
  \<^verbatim>\<open>string.replace(rePropName, ...)\<close>: the global regular expression is matched from
  left to right; at each position the alternatives are tried in order (a run of
  characters other than \<^verbatim>\<open>. [ ]\<close>, a bracket group, the empty key); a position where none
  matches is skipped.
\<close>

function scanPath :: "string \<Rightarrow> string list" where
  "scanPath [] = []"
| "scanPath (c # cs) =
     (if \<not> pathChar c then
        takeWhile (\<lambda>x. \<not> pathChar x) (c # cs) # scanPath (dropWhile (\<lambda>x. \<not> pathChar x) cs)
      else
        (case (if c = CHR ''['' then scanBracket cs else None) of
           Some (key, rest) \<Rightarrow> key # scanPath rest
         | None \<Rightarrow>
             if emptyKeyAhead (c # cs) then [] # scanPath cs else scanPath cs))"
  by pat_completeness auto
termination
proof (relation "measure length")
  show "wf (measure length)" by simp
next
  fix c :: char and cs :: string
  assume "\<not> pathChar c"
  show "(dropWhile (\<lambda>x. \<not> pathChar x) cs, c # cs) \<in> measure length"
    using length_dropWhile_le [of "\<lambda>x. \<not> pathChar x" cs] by simp
next
  fix c :: char and cs :: string and x2 key rest
  assume "(if c = CHR ''['' then scanBracket cs else None) = Some x2" "(key, rest) = x2"
  then have "scanBracket cs = Some (key, rest)" by (auto split: if_splits)
  then show "(rest, c # cs) \<in> measure length"
    using scanBracket_shorter by simp
next
  fix c :: char and cs :: string
  show "(cs, c # cs) \<in> measure length" by simp
next
  fix c :: char and cs :: string
  show "(cs, c # cs) \<in> measure length" by simp
qed

text \<open>\<^verbatim>\<open>stringToPath\<close>: a leading dot contributes an empty key of its own.\<close>

definition stringToPath :: "string \<Rightarrow> string list" where
  "stringToPath s = (if s \<noteq> [] \<and> hd s = CHR ''.'' then [[]] else []) @ scanPath s"

text \<open>\<^verbatim>\<open>reIsPlainProp = /^\w*$/\<close>.\<close>

definition reIsPlainProp :: "string \<Rightarrow> bool" where
  "reIsPlainProp s = list_all isWordChar s"

text \<open>
  \<^verbatim>\<open>reIsDeepProp = /\.|\[(?:[^[\]]*|(["'])(?:(?!\1)[^\\]|\\.)*?\1)\]/\<close>, searched anywhere
  in the string.
\<close>

definition bracketGroup :: "string \<Rightarrow> bool" where
  "bracketGroup s =
     ((case dropWhile (\<lambda>x. x \<noteq> CHR ''['' \<and> x \<noteq> CHR '']'') s of
         [] \<Rightarrow> False
       | c # r \<Rightarrow> c = CHR '']'')
      \<or> (case s of
            [] \<Rightarrow> False
          | q # r \<Rightarrow> isQuote q \<and> scanQuoted q [] r \<noteq> None))"

fun reIsDeepProp :: "string \<Rightarrow> bool" where
  "reIsDeepProp [] = False"
| "reIsDeepProp (c # cs) =
     (c = CHR ''.'' \<or> (c = CHR ''['' \<and> bracketGroup cs) \<or> reIsDeepProp cs)"

text \<open>
  \<^verbatim>\<open>isKey(value, object)\<close> on a string: a plain name, a name with no path syntax, or a
  name that is already a property of the object is one key.
\<close>

definition isKey :: "string \<Rightarrow> jv \<Rightarrow> bool" where
  "isKey s obj = (reIsPlainProp s \<or> \<not> reIsDeepProp s \<or> (\<not> nullish obj \<and> hasOwn obj s))"

definition castPath :: "string \<Rightarrow> jv \<Rightarrow> string list" where
  "castPath s obj = (if isKey s obj then [s] else stringToPath s)"

text \<open>\<^verbatim>\<open>hasPath(object, path, baseHas)\<close>, with its last-key rule for array indices.\<close>

fun hasPath :: "jv \<Rightarrow> string list \<Rightarrow> bool" where
  "hasPath obj [] = False"
| "hasPath obj [k] =
     ((\<not> nullish obj \<and> hasOwn obj k)
      \<or> (case obj of
            Arr xs ps \<Rightarrow> xs \<noteq> [] \<and> reIsUint k \<and> decimalValue k < length xs
          | _ \<Rightarrow> False))"
| "hasPath obj (k # ks) = (\<not> nullish obj \<and> hasOwn obj k \<and> hasPath (getProp obj k) ks)"

definition lodash_has :: "jv \<Rightarrow> string \<Rightarrow> bool" where
  "lodash_has obj path = (\<not> nullish obj \<and> hasPath obj (castPath path obj))"

fun walk :: "jv \<Rightarrow> string list \<Rightarrow> jv" where
  "walk obj [] = obj"
| "walk obj (k # ks) = (if nullish obj then Undefined else walk (getProp obj k) ks)"

definition baseGet :: "jv \<Rightarrow> string list \<Rightarrow> jv" where
  "baseGet obj path = (if path = [] then Undefined else walk obj path)"

definition lodash_get :: "jv \<Rightarrow> string \<Rightarrow> jv" where
  "lodash_get obj path = (if nullish obj then Undefined else baseGet obj (castPath path obj))"

definition lodash_get_default :: "jv \<Rightarrow> string \<Rightarrow> jv \<Rightarrow> jv" where
  "lodash_get_default obj path dflt =
     (let result = lodash_get obj path in if result = Undefined then dflt else result)"

definition unsafeKey :: "string \<Rightarrow> bool" where
  "unsafeKey k = (k = ''__proto__'' \<or> k = ''constructor'' \<or> k = ''prototype'')"

text \<open>
  The loop of \<^verbatim>\<open>baseSet\<close>, on the object \<open>nested\<close> reached so far. An unsafe key ends
  the loop and leaves what was reached as it is; a missing or primitive intermediate value
  is replaced by a new array (when the next key is an index) or a new object.
\<close>

fun baseSetLoop :: "jv \<Rightarrow> string list \<Rightarrow> jv \<Rightarrow> jv" where
  "baseSetLoop nested [] v = nested"
| "baseSetLoop nested [k] v = (if unsafeKey k then nested else assign nested k v)"
| "baseSetLoop nested (k # k' # ks) v =
     (if unsafeKey k then nested
      else
        (let objValue = getProp nested k;
             newValue = (if isObject objValue then objValue
                         else if isIndex k' then Arr [] [] else Obj [])
         in assign nested k (baseSetLoop newValue (k' # ks) v)))"

definition lodash_set :: "jv \<Rightarrow> string \<Rightarrow> jv \<Rightarrow> jv" where
  "lodash_set obj path v =
     (if \<not> isObject obj then obj else baseSetLoop obj (castPath path obj) v)"

section \<open>The transport request and the metadata extractor\<close>

text \<open>
  \<^verbatim>\<open>req.forEach\<close> hands the header pairs over in arrival order; \<^verbatim>\<open>getQuery\<close>,
  \<^verbatim>\<open>getMethod\<close> and \<^verbatim>\<open>getUrl\<close> are accessors of the transport.
\<close>

record HttpRequest =
  forEach :: "(string \<times> string) list"
  getQuery :: string
  getMethod :: string
  getUrl :: string

text \<open>
  \<^verbatim>\<open>String.prototype.toLowerCase\<close> on code units below 256: the letters A to Z, and the
  capital letters U+00C0 to U+00DE of Latin-1 except the multiplication sign U+00D7,
  move up by 32.
\<close>

definition toLowerCase :: "string \<Rightarrow> string" where
  "toLowerCase s =
     map (\<lambda>c. if ((65::nat) \<le> of_char c \<and> of_char c \<le> (90::nat))
                 \<or> ((192::nat) \<le> of_char c \<and> of_char c \<le> (222::nat) \<and> of_char c \<noteq> (215::nat))
              then char_of (of_char c + (32::nat)) else c) s"

text \<open>
  The callback of \<^verbatim>\<open>req.forEach\<close> (lines 133 to 147). In the \<^verbatim>\<open>else\<close> branch an array
  already stored gets the new value pushed; a scalar is wrapped as \<^verbatim>\<open>[val]\<close>, and the new
  value is not added to that array.
\<close>

definition headerStep :: "jv \<Rightarrow> string \<times> string \<Rightarrow> jv" where
  "headerStep headers kv =
     (let key = toLowerCase (fst kv); value = snd kv
      in if \<not> lodash_has headers key then lodash_set headers key (Str value)
         else
           (let val = lodash_get headers key;
                val' = (case val of
                          Arr xs ps \<Rightarrow> Arr (xs @ [Str value]) ps
                        | _ \<Rightarrow> Arr [val] [])
            in lodash_set headers key val'))"

definition extractHeaders :: "HttpRequest \<Rightarrow> jv" where
  "extractHeaders req = foldl headerStep (Obj []) (forEach req)"
section \<open>Promises and the buffered materializer\<close>

datatype error =
    MAX_SIZE_EXCEEDED
  | StreamError
  | LimitError
  | PartsLimitError
  | FieldsLimitError
  | FilesLimitError
  | BusboyError
  | SyntaxError
  | TypeError

datatype 'a promise = Pending | Resolved 'a | Rejected error

definition resolve :: "'a promise \<Rightarrow> 'a \<Rightarrow> 'a promise" where
  "resolve p v = (case p of Pending \<Rightarrow> Resolved v | _ \<Rightarrow> p)"

definition reject :: "'a promise \<Rightarrow> error \<Rightarrow> 'a promise" where
  "reject p e = (case p of Pending \<Rightarrow> Rejected e | _ \<Rightarrow> p)"

datatype stream_event = Data string | End | Error

record stob_state =
  hasEnded :: bool
  buffers :: "string list option"
  length' :: nat
  destroyed :: bool
  settled :: "string promise"

definition stob_init :: stob_state where
  "stob_init = \<lparr>hasEnded = False, buffers = Some [], length' = 0, destroyed = False, settled = Pending\<rparr>"

definition on_data :: "real \<Rightarrow> stob_state \<Rightarrow> string \<Rightarrow> stob_state" where
  "on_data maxSize st buffer =
     (case buffers st of
        None \<Rightarrow> st
      | Some bs \<Rightarrow>
          if hasEnded st then st
          else
            (let st1 = st\<lparr>buffers := Some (bs @ [buffer])\<rparr>
             in if maxSize \<noteq> 0 then
                  (let st2 = st1\<lparr>length' := length' st1 + length buffer\<rparr>
                   in if real (length' st2) > maxSize then
                        st2\<lparr>buffers := None, hasEnded := True, destroyed := True,
                            settled := reject (settled st2) MAX_SIZE_EXCEEDED\<rparr>
                      else st2)
                else st1))"

definition on_end :: "stob_state \<Rightarrow> stob_state" where
  "on_end st =
     (let st1 = st\<lparr>hasEnded := True\<rparr>
      in (case buffers st1 of
            None \<Rightarrow> st1
          | Some bs \<Rightarrow>
              (case length bs of
                 0 \<Rightarrow> st1\<lparr>settled := resolve (settled st1) []\<rparr>
               | Suc 0 \<Rightarrow> st1\<lparr>settled := resolve (settled st1) (bs ! 0)\<rparr>
               | _ \<Rightarrow> st1\<lparr>settled := resolve (settled st1) (concat bs)\<rparr>)))"

fun stob_step :: "real \<Rightarrow> stob_state \<Rightarrow> stream_event \<Rightarrow> stob_state" where
  "stob_step maxSize st (Data buffer) = on_data maxSize st buffer"
| "stob_step maxSize st End = on_end st"
| "stob_step maxSize st Error = st"

definition stob_run :: "stream_event list \<Rightarrow> real \<Rightarrow> stob_state" where
  "stob_run events maxSize = foldl (stob_step maxSize) stob_init events"

definition stob :: "stream_event list \<Rightarrow> real \<Rightarrow> string promise" where
  "stob events maxSize = settled (stob_run events maxSize)"

definition byteLength :: "string list \<Rightarrow> nat" where
  "byteLength cs = sum_list (map length cs)"

definition live :: "stob_state \<Rightarrow> string list \<Rightarrow> bool" where
  "live st bs = (buffers st = Some bs \<and> \<not> hasEnded st \<and> \<not> destroyed st \<and> settled st = Pending
     \<and> length' st = byteLength bs)"

definition overflowed :: "stob_state \<Rightarrow> bool" where
  "overflowed st = (buffers st = None \<and> hasEnded st \<and> destroyed st
     \<and> settled st = Rejected MAX_SIZE_EXCEEDED)"


section \<open>The byte-stream bridge\<close>

text \<open>
  \<^verbatim>\<open>ResDataToStream\<close> builds a \<^verbatim>\<open>Readable\<close> whose \<^verbatim>\<open>_read\<close> registers a callback with
  \<^verbatim>\<open>res.onData\<close>; the callback pushes each chunk and, on the last one, \<^verbatim>\<open>null\<close>. The
  state below is what the bridge and the abort callback of \<^verbatim>\<open>parseData\<close> (lines 122 to
  126) can change: the flag \<^verbatim>\<open>isAborted\<close>, whether the data callback is registered, and
  what has been pushed into the stream so far.
\<close>

datatype push = Push string | PushNull

record bridge_state =
  isAborted :: bool
  registered :: bool
  pushed :: "push list"

definition bridge_init :: bridge_state where
  "bridge_init = \<lparr>isAborted = False, registered = False, pushed = []\<rparr>"

text \<open>The callback given to \<^verbatim>\<open>res.onAborted\<close>.\<close>

definition onAborted_cb :: "bridge_state \<Rightarrow> bridge_state" where
  "onAborted_cb st = st\<lparr>isAborted := True\<rparr>"

text \<open>\<^verbatim>\<open>stream._read\<close>: a pull on the stream.\<close>

definition read' :: "bridge_state \<Rightarrow> bridge_state" where
  "read' st = st\<lparr>registered := True\<rparr>"

text \<open>The callback given to \<^verbatim>\<open>res.onData\<close>, called by the transport once it is registered.\<close>

definition onData_cb :: "bridge_state \<Rightarrow> string \<Rightarrow> bool \<Rightarrow> bridge_state" where
  "onData_cb st chunk isLast =
     (if registered st
      then st\<lparr>pushed := pushed st @ Push chunk # (if isLast then [PushNull] else [])\<rparr>
      else st)"

text \<open>What the transport does after \<^verbatim>\<open>parseData\<close> has set up its callbacks.\<close>

datatype transport_event = Chunk string bool | Abort

fun transport_step :: "bridge_state \<Rightarrow> transport_event \<Rightarrow> bridge_state" where
  "transport_step st (Chunk chunk isLast) = onData_cb st chunk isLast"
| "transport_step st Abort = onAborted_cb st"

text \<open>
  The events of a flowing \<^verbatim>\<open>Readable\<close> (Node) for what was pushed into it: a chunk that
  is not empty is a \<^verbatim>\<open>data\<close> event, \<^verbatim>\<open>null\<close> is the \<^verbatim>\<open>end\<close> event, and a push after
  \<^verbatim>\<open>null\<close> is an \<^verbatim>\<open>error\<close> event that ends the stream.
\<close>

fun readable_events :: "push list \<Rightarrow> stream_event list" where
  "readable_events [] = []"
| "readable_events (Push c # ps) = (if c = [] then readable_events ps else Data c # readable_events ps)"
| "readable_events (PushNull # ps) = End # (if ps = [] then [] else [Error])"

text \<open>
  The transport response: whether its abort callback runs before \<^verbatim>\<open>res.onAborted\<close>
  returns, and what the transport does afterwards.
\<close>

record HttpResponse =
  abortedOnRegistration :: bool
  transport :: "transport_event list"

text \<open>
  \<^verbatim>\<open>ResDataToStream(res)\<close> consumed by a flowing reader (\<^verbatim>\<open>stream.resume()\<close> or
  \<^verbatim>\<open>stream.pipe\<close>): the first pull registers the callback, the transport then runs.
\<close>

definition ResDataToStream :: "bridge_state \<Rightarrow> HttpResponse \<Rightarrow> stream_event list" where
  "ResDataToStream st res = readable_events (pushed (foldl transport_step (read' st) (transport res)))"

section \<open>The file system\<close>

text \<open>
  The calls of \<^verbatim>\<open>fs/promises\<close> and \<^verbatim>\<open>mkdirp\<close> that the decoder makes, on a file system
  that maps a path to what is there: a file with its content, a directory, or a symbolic
  link with the path it points to. A path can be write-protected, so that \<^verbatim>\<open>mkdirp\<close> and
  \<^verbatim>\<open>open\<close> can fail. Devices, sockets and pipes are not part of the model.
\<close>

datatype node = File string | Directory | Link string

datatype fs_error = ENOENT | EACCES | EEXIST | EISDIR | ELOOP

record filesystem =
  nodes :: "string \<rightharpoonup> node"
  readonly :: "string \<Rightarrow> bool"

text \<open>\<^verbatim>\<open>lstat\<close> reports the node at the path itself: a symbolic link is not followed.\<close>

definition lstat :: "filesystem \<Rightarrow> string \<Rightarrow> fs_error + node" where
  "lstat fs p = (case nodes fs p of None \<Rightarrow> Inl ENOENT | Some n \<Rightarrow> Inr n)"

fun isFile :: "node \<Rightarrow> bool" where
  "isFile (File _) = True"
| "isFile _ = False"

fun isDirectory :: "node \<Rightarrow> bool" where
  "isDirectory Directory = True"
| "isDirectory _ = False"

text \<open>
  The path that a path resolves to when symbolic links are followed, at most as many as
  the first argument allows; beyond that the system call fails with \<^verbatim>\<open>ELOOP\<close>.
\<close>

fun follow :: "nat \<Rightarrow> (string \<rightharpoonup> node) \<Rightarrow> string \<Rightarrow> fs_error + string" where
  "follow 0 ns p = Inl ELOOP"
| "follow (Suc n) ns p = (case ns p of Some (Link q) \<Rightarrow> follow n ns q | _ \<Rightarrow> Inr p)"

text \<open>
  \<^verbatim>\<open>mkdirp(dir)\<close>: nothing to do when the path is a directory, or a link to one; an error
  when something else is there; otherwise the directory is made.
\<close>

definition mkdirp :: "filesystem \<Rightarrow> string \<Rightarrow> fs_error + filesystem" where
  "mkdirp fs d =
     (case nodes fs d of
        None \<Rightarrow> if readonly fs d then Inl EACCES
                else Inr (fs\<lparr>nodes := (nodes fs)(d \<mapsto> Directory)\<rparr>)
      | Some n \<Rightarrow>
          (case follow 41 (nodes fs) d of
             Inl err \<Rightarrow> Inl err
           | Inr q \<Rightarrow> if nodes fs q = Some Directory then Inr fs else Inl EEXIST))"

text \<open>
  \<^verbatim>\<open>open(path, 'w')\<close>: symbolic links are followed, and the file they lead to is created
  or truncated.
\<close>

definition open_w :: "filesystem \<Rightarrow> string \<Rightarrow> fs_error + filesystem" where
  "open_w fs p =
     (case follow 41 (nodes fs) p of
        Inl err \<Rightarrow> Inl err
      | Inr q \<Rightarrow>
          (case nodes fs q of
             Some Directory \<Rightarrow> Inl EISDIR
           | _ \<Rightarrow> if readonly fs q then Inl EACCES
                  else Inr (fs\<lparr>nodes := (nodes fs)(q \<mapsto> File [])\<rparr>)))"

text \<open>
  \<^verbatim>\<open>write(fd, Buffer.from(chunk))\<close> at line 272. The name \<^verbatim>\<open>write\<close> is imported at line 3
  from \<^verbatim>\<open>fs/promises\<close>, which exports no function of that name (writing is a method of
  the file handle): the call throws a TypeError, whatever the handle and the chunk are.
\<close>

definition fs_write :: "filesystem \<Rightarrow> string \<Rightarrow> string \<Rightarrow> error + filesystem" where
  "fs_write fs p chunk = Inl TypeError"

section \<open>The tokenized form decoder\<close>

text \<open>
  A file part as the tokenizer hands it over: its names and the chunks of its byte
  source.
\<close>

record FileInfo =
  fieldname :: string
  filename :: string
  encoding :: string
  mimetype :: string
  file' :: "string list"

text \<open>A policy hook of \<^verbatim>\<open>customBodyOptions\<close>: a static value or a function of the file part.\<close>

datatype 'a hook = Static 'a | Fn "FileInfo \<Rightarrow> 'a"

record CustomBodyOptions =
  handle :: "bool hook option"
  tmpDir :: "string hook option"
  folder :: "string hook option"
  saveAs :: "string hook option"

text \<open>
  \<^verbatim>\<open>bodyOptions\<close>, merged over the defaults of lines 169 to 185: what \<^verbatim>\<open>parseData\<close>
  itself reads of the result is \<^verbatim>\<open>limits.fieldSize\<close>.
\<close>

record BusboyConfig =
  fieldSize :: "real option"

record ParseDataOptions =
  opt_namespace :: "string option"
  opt_headers :: "bool option"
  opt_body :: "bool option"
  opt_query :: "bool option"
  opt_path :: "bool option"
  opt_method :: "bool option"
  bodyOptions :: "BusboyConfig option"
  customBodyOptions :: "CustomBodyOptions option"

text \<open>
  The calls made to the handlers that \<^verbatim>\<open>fetchBody\<close> registers: the callback of
  \<^verbatim>\<open>finished(stream, ...)\<close> (with or without an error) and the events of the tokenizer.
\<close>

datatype fb_event =
    StreamFinished bool
  | BLimit
  | BFile FileInfo
  | BField string string
  | BFinish
  | BPartsLimit
  | BFieldsLimit
  | BFilesLimit
  | BError

text \<open>
  The collaborators that are not part of this repository: \<^verbatim>\<open>os.tmpdir\<close>, \<^verbatim>\<open>path.join\<close>,
  \<^verbatim>\<open>path.dirname\<close>, \<^verbatim>\<open>qs.parse\<close> (with \<^verbatim>\<open>parseArrays: false\<close>), \<^verbatim>\<open>JSON.parse\<close> (\<open>None\<close>
  when it throws) and the tokenizer: for the configuration (\<^verbatim>\<open>bodyOptions\<close> and the
  headers merged under it) and the events of the stream piped into it, the handler calls
  in order.
\<close>

record env =
  tmpdir :: string
  path_join :: "string list \<Rightarrow> string"
  path_dirname :: "string \<Rightarrow> string"
  parseQuery :: "string \<Rightarrow> jv"
  JSON_parse :: "string \<Rightarrow> jv option"
  busboy :: "BusboyConfig option \<Rightarrow> jv \<Rightarrow> stream_event list \<Rightarrow> fb_event list"

text \<open>
  \<^verbatim>\<open>if (hook) { if (typeof hook === 'function') x = await hook(fileData); else x = hook; }\<close>:
  a static value that is falsy leaves the default.
\<close>

definition hookValue :: "('a \<Rightarrow> bool) \<Rightarrow> 'a \<Rightarrow> 'a hook option \<Rightarrow> FileInfo \<Rightarrow> 'a" where
  "hookValue truthy dflt h fileData =
     (case h of
        None \<Rightarrow> dflt
      | Some (Static v) \<Rightarrow> if truthy v then v else dflt
      | Some (Fn f) \<Rightarrow> f fileData)"

text \<open>The byte source of a part: the chunks not yet read, and whether \<^verbatim>\<open>resume\<close> was called.\<close>

record part =
  remaining :: "string list"
  resumed :: bool

definition drained :: "part \<Rightarrow> bool" where
  "drained p = (remaining p = [] \<or> resumed p)"

text \<open>
  \<^verbatim>\<open>for await (const chunk of file) await write(fd, Buffer.from(chunk))\<close>: the file system
  afterwards, whether the loop ended without an exception, and the chunks not read. A
  part without chunks never enters the body of the loop.
\<close>

fun write_chunks :: "filesystem \<Rightarrow> string \<Rightarrow> string list \<Rightarrow> filesystem \<times> bool \<times> string list" where
  "write_chunks fs p [] = (fs, True, [])"
| "write_chunks fs p (chunk # chunks) =
     (case fs_write fs p chunk of
        Inl e \<Rightarrow> (fs, False, chunks)
      | Inr fs' \<Rightarrow> write_chunks fs' p chunks)"

record fb_state =
  ret :: jv
  outcome :: "unit promise"
  disk :: filesystem
  stream_destroyed :: bool
  busb_ended :: bool
  parts :: "part list"

text \<open>
  The second \<^verbatim>\<open>try\<close> block of the file handler (lines 266 to 282), entered when the
  destination does not exist: the accumulator, the file system, whether the part was
  written, and the chunks not read.
\<close>

definition write_part ::
  "env \<Rightarrow> jv \<Rightarrow> filesystem \<Rightarrow> string \<Rightarrow> FileInfo \<Rightarrow> jv \<times> filesystem \<times> bool \<times> string list" where
  "write_part e r fs path fi =
     (case mkdirp fs (path_dirname e path) of
        Inl err \<Rightarrow> (r, fs, False, file' fi)
      | Inr fs1 \<Rightarrow>
          (case open_w fs1 path of
             Inl err \<Rightarrow> (r, fs1, False, file' fi)
           | Inr fs2 \<Rightarrow>
               (case write_chunks fs2 path (file' fi) of
                  (fs3, ok, rest) \<Rightarrow>
                    if ok then
                      (lodash_set r (''files.'' @ fieldname fi)
                         (Obj [(''file'', Str path), (''mimetype'', Str (mimetype fi))]),
                       fs3, True, rest)
                    else (r, fs3, False, rest))))"

text \<open>
  The storage policy of a file part (lines 213 to 249): each hook is resolved in turn and
  receives the part as the tokenizer gave it.
\<close>

definition tmpDirOf :: "env \<Rightarrow> ParseDataOptions \<Rightarrow> FileInfo \<Rightarrow> string" where
  "tmpDirOf e options fi =
     (case customBodyOptions options of
        None \<Rightarrow> tmpdir e
      | Some c \<Rightarrow> hookValue (\<lambda>s. s \<noteq> []) (tmpdir e) (tmpDir c) fi)"

definition folderOf :: "ParseDataOptions \<Rightarrow> FileInfo \<Rightarrow> string" where
  "folderOf options fi =
     (case customBodyOptions options of
        None \<Rightarrow> []
      | Some c \<Rightarrow> hookValue (\<lambda>s. s \<noteq> []) [] (folder c) fi)"

definition handleOf :: "ParseDataOptions \<Rightarrow> FileInfo \<Rightarrow> bool" where
  "handleOf options fi =
     (case customBodyOptions options of
        None \<Rightarrow> True
      | Some c \<Rightarrow> hookValue (\<lambda>b. b) True (handle c) fi)"

definition filenameOf :: "ParseDataOptions \<Rightarrow> FileInfo \<Rightarrow> string" where
  "filenameOf options fi =
     (case customBodyOptions options of
        None \<Rightarrow> filename fi
      | Some c \<Rightarrow> hookValue (\<lambda>s. s \<noteq> []) (filename fi) (saveAs c) fi)"

text \<open>Lines 253 to 261: the namespace is put before the folder, and the three are joined.\<close>

definition destination :: "env \<Rightarrow> ParseDataOptions \<Rightarrow> FileInfo \<Rightarrow> string" where
  "destination e options fi =
     (let folder0 = folderOf options fi;
          folder1 = (case opt_namespace options of
                       None \<Rightarrow> folder0
                     | Some ns \<Rightarrow>
                         if ns \<noteq> [] then
                           (if folder0 \<noteq> [] then path_join e [ns, folder0] else ns)
                         else folder0)
      in path_join e [tmpDirOf e options fi, folder1, filenameOf options fi])"

text \<open>Lines 259 to 264: the probe of the destination; a failing \<^verbatim>\<open>lstat\<close> counts as absent.\<close>

definition exists_dest :: "filesystem \<Rightarrow> string \<Rightarrow> bool" where
  "exists_dest fs path =
     (case lstat fs path of
        Inl err \<Rightarrow> False
      | Inr stats \<Rightarrow> isFile stats \<or> isDirectory stats)"

text \<open>
  Lines 251 to 283: the accumulator and the file system after the part was handled,
  the flag \<^verbatim>\<open>hasWritten\<close>, and the chunks of the part not read.
\<close>

definition file_outcome ::
  "env \<Rightarrow> ParseDataOptions \<Rightarrow> jv \<Rightarrow> filesystem \<Rightarrow> FileInfo \<Rightarrow> jv \<times> filesystem \<times> bool \<times> string list" where
  "file_outcome e options r fs fi =
     (if handleOf options fi then
        (let path = destination e options fi
         in if \<not> exists_dest fs path then write_part e r fs path fi
            else (r, fs, False, file' fi))
      else (r, fs, False, file' fi))"

text \<open>
  The handler of the tokenizer's \<^verbatim>\<open>file\<close> event (lines 212 to 288): a part that was not
  written is resumed (lines 285 to 287).
\<close>

definition on_file :: "env \<Rightarrow> ParseDataOptions \<Rightarrow> fb_state \<Rightarrow> FileInfo \<Rightarrow> fb_state" where
  "on_file e options st fi =
     (case file_outcome e options (ret st) (disk st) fi of
        (r, fs, hasWritten, rest) \<Rightarrow>
          st\<lparr>ret := r, disk := fs,
             parts := parts st @ [\<lparr>remaining = rest, resumed = \<not> hasWritten\<rparr>]\<rparr>)"

text \<open>The handler of the tokenizer's \<^verbatim>\<open>field\<close> event (lines 290 to 292).\<close>

definition on_field :: "fb_state \<Rightarrow> string \<Rightarrow> string \<Rightarrow> fb_state" where
  "on_field st name value = st\<lparr>ret := lodash_set (ret st) (''fields.'' @ name) (Str value)\<rparr>"

fun fb_step :: "env \<Rightarrow> ParseDataOptions \<Rightarrow> fb_state \<Rightarrow> fb_event \<Rightarrow> fb_state" where
  "fb_step e options st (StreamFinished err) =
     (if err then st\<lparr>stream_destroyed := True, busb_ended := True,
                     outcome := reject (outcome st) StreamError\<rparr>
      else st)"
| "fb_step e options st BLimit = st\<lparr>outcome := reject (outcome st) LimitError\<rparr>"
| "fb_step e options st (BFile fi) = on_file e options st fi"
| "fb_step e options st (BField name value) = on_field st name value"
| "fb_step e options st BFinish = st\<lparr>outcome := resolve (outcome st) ()\<rparr>"
| "fb_step e options st BPartsLimit = st\<lparr>outcome := reject (outcome st) PartsLimitError\<rparr>"
| "fb_step e options st BFieldsLimit = st\<lparr>outcome := reject (outcome st) FieldsLimitError\<rparr>"
| "fb_step e options st BFilesLimit = st\<lparr>outcome := reject (outcome st) FilesLimitError\<rparr>"
| "fb_step e options st BError = st\<lparr>outcome := reject (outcome st) BusboyError\<rparr>"

definition fb_init :: "filesystem \<Rightarrow> fb_state" where
  "fb_init fs = \<lparr>ret = Obj [], outcome = Pending, disk = fs, stream_destroyed = False,
                 busb_ended = False, parts = []\<rparr>"

definition fb_run :: "env \<Rightarrow> ParseDataOptions \<Rightarrow> filesystem \<Rightarrow> fb_event list \<Rightarrow> fb_state" where
  "fb_run e options fs events = foldl (fb_step e options) (fb_init fs) events"

text \<open>
  \<^verbatim>\<open>fetchBody\<close>: \<^verbatim>\<open>resolve(ret)\<close> hands over the accumulator object itself, so the
  resolved value is the accumulator as the handlers leave it. Each handler call is one
  step: the awaits inside the file handler are not interleaved with other calls.
\<close>

definition fetchBody ::
  "env \<Rightarrow> ParseDataOptions \<Rightarrow> filesystem \<Rightarrow> jv \<Rightarrow> stream_event list \<Rightarrow> jv promise \<times> filesystem" where
  "fetchBody e options fs hdrs stream =
     (let st = fb_run e options fs (busboy e (bodyOptions options) hdrs stream)
      in ((case outcome st of
             Pending \<Rightarrow> Pending
           | Resolved u \<Rightarrow> Resolved (ret st)
           | Rejected err \<Rightarrow> Rejected err),
          disk st))"

text \<open>
  The accumulator \<^verbatim>\<open>ret\<close> starts as \<^verbatim>\<open>{}\<close> and only ever gets the properties
  \<^verbatim>\<open>fields\<close> and \<^verbatim>\<open>files\<close>.
\<close>

definition ret_ok :: "jv \<Rightarrow> bool" where
  "ret_ok r =
     (case r of
        Obj kvs \<Rightarrow> list_all (\<lambda>kv. fst kv = ''fields'' \<or> fst kv = ''files'') kvs
      | _ \<Rightarrow> False)"

text \<open>
  The handler calls that settle the promise of \<^verbatim>\<open>fetchBody\<close>: the error a call rejects
  with (lines 200 to 210 and 298 to 312), and the calls that resolve or reject.
\<close>

fun rejection :: "fb_event \<Rightarrow> error option" where
  "rejection (StreamFinished err) = (if err then Some StreamError else None)"
| "rejection BLimit = Some LimitError"
| "rejection BPartsLimit = Some PartsLimitError"
| "rejection BFieldsLimit = Some FieldsLimitError"
| "rejection BFilesLimit = Some FilesLimitError"
| "rejection BError = Some BusboyError"
| "rejection (BFile fi) = None"
| "rejection (BField name value) = None"
| "rejection BFinish = None"

definition settling :: "fb_event \<Rightarrow> bool" where
  "settling ev = (rejection ev \<noteq> None \<or> ev = BFinish)"

section \<open>parseData\<close>

record ParsedData =
  headers :: "jv option"
  body :: "jv option"
  query :: "jv option"
  path :: "string option"
  method' :: "string option"

definition out_init :: ParsedData where
  "out_init = \<lparr>headers = None, body = None, query = None, path = None, method' = None\<rparr>"

text \<open>The object \<^verbatim>\<open>out\<close> as lodash sees it, with its properties in the order of assignment.\<close>

definition outObject :: "ParsedData \<Rightarrow> jv" where
  "outObject out =
     Obj ((case headers out of None \<Rightarrow> [] | Some h \<Rightarrow> [(''headers'', h)])
        @ (case query out of None \<Rightarrow> [] | Some q \<Rightarrow> [(''query'', q)])
        @ (case method' out of None \<Rightarrow> [] | Some m \<Rightarrow> [(''method'', Str m)])
        @ (case path out of None \<Rightarrow> [] | Some p \<Rightarrow> [(''path'', Str p)])
        @ (case body out of None \<Rightarrow> [] | Some b \<Rightarrow> [(''body'', b)]))"

text \<open>
  The white space and the line terminators of the language among the code units below
  256: tab, line feed, vertical tab, form feed, carriage return, space and the no-break
  space U+00A0.
\<close>

definition isWhiteSpace :: "char \<Rightarrow> bool" where
  "isWhiteSpace c =
     (c = CHR '' '' \<or> c = CHR 0x09 \<or> c = CHR 0x0A \<or> c = CHR 0x0B \<or> c = CHR 0x0C
      \<or> c = CHR 0x0D \<or> c = CHR 0xA0)"

text \<open>\<^verbatim>\<open>String.prototype.trim\<close>.\<close>

definition trim :: "string \<Rightarrow> string" where
  "trim s = rev (dropWhile isWhiteSpace (rev (dropWhile isWhiteSpace s)))"

definition startsWith :: "string \<Rightarrow> string \<Rightarrow> bool" where
  "startsWith s p = (take (length p) s = p)"

text \<open>
  Line 191: \<^verbatim>\<open>get(out, 'headers.content-type', 'application/x-www-form-urlencoded').trim()\<close>.
  A value that is not a string (the array of a repeated header, an object) has no
  \<^verbatim>\<open>trim\<close>: the call throws a TypeError.
\<close>

definition contentType :: "ParsedData \<Rightarrow> error + string" where
  "contentType out =
     (case lodash_get_default (outObject out) ''headers.content-type''
             (Str ''application/x-www-form-urlencoded'') of
        Str s \<Rightarrow> Inr (trim s)
      | _ \<Rightarrow> Inl TypeError)"

text \<open>
  Line 318: \<^verbatim>\<open>parseFloat(get(opts, 'limits.fieldSize', 0)) || 0\<close>, where \<^verbatim>\<open>opts\<close> is
  \<^verbatim>\<open>bodyOptions\<close> merged over the defaults, whose \<^verbatim>\<open>limits.fieldSize\<close> is
  \<^verbatim>\<open>10 * 1024 * 1024\<close>.
\<close>

definition maxSizeOf :: "ParseDataOptions \<Rightarrow> real" where
  "maxSizeOf options =
     (case bodyOptions options of
        None \<Rightarrow> 10 * 1024 * 1024
      | Some cfg \<Rightarrow> (case fieldSize cfg of None \<Rightarrow> 10 * 1024 * 1024 | Some n \<Rightarrow> n))"

text \<open>
  Lines 170 to 173, the headers given to the tokenizer:
  \<^verbatim>\<open>{'content-type': 'application/x-www-form-urlencoded', ...out.headers}\<close>.
\<close>

definition busboyHeaders :: "ParsedData \<Rightarrow> jv" where
  "busboyHeaders out =
     foldl (\<lambda>obj kv. assign obj (fst kv) (snd kv))
       (Obj [(''content-type'', Str ''application/x-www-form-urlencoded'')])
       (case headers out of Some (Obj kvs) \<Rightarrow> kvs | _ \<Rightarrow> [])"

datatype strategy = TokenizedForm | JsonBuffer | NoDecoding

definition dispatch :: "string \<Rightarrow> strategy" where
  "dispatch ct =
     (if ''application/x-www-form-urlencoded'' = ct \<or> startsWith ct ''multipart/form-data;''
      then TokenizedForm
      else if ct = ''application/json'' then JsonBuffer
      else NoDecoding)"

text \<open>
  The body of the \<^verbatim>\<open>try\<close> block (lines 190 to 324): what is assigned to \<^verbatim>\<open>out.body\<close>
  (\<open>None\<close> when nothing is), or the exception thrown or the rejection awaited.
\<close>

definition decodeBody ::
  "env \<Rightarrow> ParseDataOptions \<Rightarrow> filesystem \<Rightarrow> HttpResponse \<Rightarrow> bridge_state \<Rightarrow> ParsedData
     \<Rightarrow> jv option promise \<times> filesystem" where
  "decodeBody e options fs res st out =
     (let stream = ResDataToStream st res
      in (case contentType out of
            Inl err \<Rightarrow> (Rejected err, fs)
          | Inr ct \<Rightarrow>
              (case dispatch ct of
                 TokenizedForm \<Rightarrow>
                   (case fetchBody e options fs (busboyHeaders out) stream of
                      (Resolved b, fs') \<Rightarrow> (Resolved (Some b), fs')
                    | (Rejected err, fs') \<Rightarrow> (Rejected err, fs')
                    | (Pending, fs') \<Rightarrow> (Pending, fs'))
               | JsonBuffer \<Rightarrow>
                   (case stob stream (maxSizeOf options) of
                      Resolved data \<Rightarrow>
                        (case JSON_parse e data of
                           None \<Rightarrow> (Rejected SyntaxError, fs)
                         | Some v \<Rightarrow> (Resolved (Some (Obj [(''fields'', v)])), fs))
                    | Rejected err \<Rightarrow> (Rejected err, fs)
                    | Pending \<Rightarrow> (Pending, fs))
               | NoDecoding \<Rightarrow> (Resolved None, fs))))"

text \<open>The metadata extractor (lines 131 to 164).\<close>

definition metadata :: "env \<Rightarrow> HttpRequest \<Rightarrow> ParseDataOptions \<Rightarrow> ParsedData" where
  "metadata e req options =
     (let out = out_init;
          out1 = (if opt_headers options = Some True \<or> opt_body options = Some True
                  then out\<lparr>headers := Some (extractHeaders req)\<rparr> else out);
          out2 = (if opt_query options = Some True
                  then out1\<lparr>query := Some (parseQuery e (getQuery req))\<rparr> else out1);
          out3 = (if opt_method options = Some True
                  then out2\<lparr>method' := Some (getMethod req)\<rparr> else out2);
          out4 = (if opt_path options = Some True
                  then out3\<lparr>path := Some (getUrl req)\<rparr> else out3)
      in out4)"

text \<open>
  \<^verbatim>\<open>parseData\<close> (lines 121 to 330): the promise it returns and the file system it
  leaves. The \<^verbatim>\<open>catch\<close> of line 325 logs the error and goes on to \<^verbatim>\<open>return out\<close>.
\<close>

definition parseData ::
  "env \<Rightarrow> filesystem \<Rightarrow> HttpRequest \<Rightarrow> HttpResponse \<Rightarrow> ParseDataOptions
     \<Rightarrow> ParsedData promise \<times> filesystem" where
  "parseData e fs req res options =
     (let st = (if abortedOnRegistration res then onAborted_cb bridge_init else bridge_init)
      in if isAborted st then (Resolved out_init, fs)
         else
           (let out = metadata e req options
            in if opt_body options = Some True then
                 (case decodeBody e options fs res st out of
                    (Resolved None, fs') \<Rightarrow> (Resolved out, fs')
                  | (Resolved (Some b), fs') \<Rightarrow> (Resolved (out\<lparr>body := Some b\<rparr>), fs')
                  | (Rejected err, fs') \<Rightarrow> (Resolved out, fs')
                  | (Pending, fs') \<Rightarrow> (Pending, fs'))
               else (Resolved out, fs)))"

section \<open>Sample collaborators and inputs\<close>

text \<open>
  A POSIX-like \<^verbatim>\<open>path.join\<close> and \<^verbatim>\<open>path.dirname\<close> on simple paths, a \<^verbatim>\<open>JSON.parse\<close> that
  knows two texts, and a tokenizer that reports one field, one file part and the end.
\<close>

definition ex_part :: FileInfo where
  "ex_part = \<lparr>fieldname = ''doc'', filename = ''a.txt'', encoding = ''7bit'',
               mimetype = ''text/plain'', file' = [''he'', ''llo'']\<rparr>"

text \<open>An empty upload: a file part whose byte source ends without a chunk.\<close>

definition ex_empty_part :: FileInfo where
  "ex_empty_part = \<lparr>fieldname = ''doc'', filename = ''a.txt'', encoding = ''7bit'',
                     mimetype = ''text/plain'', file' = []\<rparr>"

definition ex_env :: env where
  "ex_env =
     \<lparr>tmpdir = ''/tmp'',
      path_join = (\<lambda>ps. foldr (\<lambda>p acc. if p = [] then acc
                                       else if acc = [] then p else p @ ''/'' @ acc) ps []),
      path_dirname = (\<lambda>p. rev (drop 1 (dropWhile (\<lambda>c. c \<noteq> CHR ''/'') (rev p)))),
      parseQuery = (\<lambda>s. Obj []),
      JSON_parse = (\<lambda>s. if s = ''{}'' then Some (Obj [])
                        else if s = ''7'' then Some (Num 7) else None),
      busboy = (\<lambda>cfg hdrs evs. [BField ''name'' ''foo'', BFile ex_part, BFinish])\<rparr>"

definition ex_fs :: filesystem where
  "ex_fs = \<lparr>nodes = Map.empty, readonly = (\<lambda>p. False)\<rparr>"

definition ex_fs_taken :: filesystem where
  "ex_fs_taken = \<lparr>nodes = [''/tmp/a.txt'' \<mapsto> File ''old''], readonly = (\<lambda>p. False)\<rparr>"

definition ex_options :: ParseDataOptions where
  "ex_options =
     \<lparr>opt_namespace = None, opt_headers = None, opt_body = Some True, opt_query = None,
      opt_path = None, opt_method = Some True, bodyOptions = Some \<lparr>fieldSize = Some 10\<rparr>,
      customBodyOptions = None\<rparr>"

definition ex_req :: "string \<Rightarrow> HttpRequest" where
  "ex_req ct = \<lparr>forEach = [(''Content-Type'', ct)], getQuery = [], getMethod = ''post'',
                getUrl = ''/upload''\<rparr>"

definition ex_res :: "string \<Rightarrow> HttpResponse" where
  "ex_res bytes = \<lparr>abortedOnRegistration = False, transport = [Chunk bytes True]\<rparr>"

definition ex_out :: "string \<Rightarrow> ParsedData" where
  "ex_out ct = \<lparr>headers = Some (Obj [(''content-type'', Str ct)]), body = None, query = None,
                path = None, method' = Some ''post''\<rparr>"

text \<open>The same collaborators with a tokenizer that reports the files limit.\<close>

definition ex_env_limit :: env where
  "ex_env_limit = ex_env\<lparr>busboy := (\<lambda>cfg hdrs evs. [BField ''name'' ''foo'', BFilesLimit, BFinish])\<rparr>"

section \<open>Settlement of the decoder's promise\<close>

lemma fb_step_settled: "outcome st \<noteq> Pending \<Longrightarrow> outcome (fb_step e options st ev) = outcome st"
  by (cases ev)
     (auto simp: on_file_def on_field_def reject_def resolve_def split: prod.splits promise.splits)

lemma fb_foldl_settled:
  "outcome st \<noteq> Pending \<Longrightarrow> outcome (foldl (fb_step e options) st evs) = outcome st"
  by (induction evs arbitrary: st) (simp_all add: fb_step_settled)


section \<open>The buffered materializer: size ceiling and settlement\<close>

lemma byteLength_simps [simp]:
  "byteLength [] = 0" "byteLength (c # cs) = length c + byteLength cs"
  "byteLength (xs @ ys) = byteLength xs + byteLength ys"
  by (simp_all add: byteLength_def)

lemma on_data_live:
  assumes "0 < maxSize" "live st bs"
  shows "if real (byteLength (bs @ [c])) \<le> maxSize then live (on_data maxSize st c) (bs @ [c])
         else overflowed (on_data maxSize st c)"
  using assms by (auto simp: live_def overflowed_def on_data_def Let_def reject_def)

lemma on_data_overflowed: "overflowed st \<Longrightarrow> on_data maxSize st c = st"
  by (simp add: overflowed_def on_data_def)

lemma data_run_overflowed:
  "overflowed st \<Longrightarrow> foldl (stob_step maxSize) st (map Data cs) = st"
  by (induction cs) (simp_all add: on_data_overflowed)

lemma data_run_live:
  assumes "0 < maxSize"
  shows "live st bs \<Longrightarrow> real (byteLength bs) \<le> maxSize \<Longrightarrow>
    (if real (byteLength (bs @ cs)) \<le> maxSize
     then live (foldl (stob_step maxSize) st (map Data cs)) (bs @ cs)
     else overflowed (foldl (stob_step maxSize) st (map Data cs)))"
proof (induction cs arbitrary: st bs)
  case Nil
  then show ?case by simp
next
  case (Cons c cs)
  show ?case
  proof (cases "real (byteLength (bs @ [c])) \<le> maxSize")
    case True
    with on_data_live [OF assms Cons.prems(1), of c]
    have l: "live (on_data maxSize st c) (bs @ [c])" by simp
    from Cons.IH [OF l True] show ?thesis by (simp split: if_splits)
  next
    case False
    with on_data_live [OF assms Cons.prems(1), of c]
    have o: "overflowed (on_data maxSize st c)" by simp
    from False have "\<not> real (byteLength (bs @ c # cs)) \<le> maxSize" by simp
    with o show ?thesis by (simp add: data_run_overflowed)
  qed
qed

lemma live_init: "live stob_init []"
  by (simp add: live_def stob_init_def)

lemma on_end_live:
  "live st bs \<Longrightarrow> settled (on_end st) = Resolved (concat bs) \<and> \<not> destroyed (on_end st)"
  by (cases bs; cases "tl bs") (auto simp: live_def on_end_def resolve_def split: nat.splits)

lemma on_end_overflowed: "overflowed st \<Longrightarrow> on_end st = st"
  by (simp add: overflowed_def on_end_def)

lemma stob_run_data:
  assumes "0 < maxSize"
  shows "if real (byteLength cs) \<le> maxSize
     then live (stob_run (map Data cs) maxSize) cs
     else overflowed (stob_run (map Data cs) maxSize)"
  using data_run_live [OF assms live_init, of cs] assms by (simp add: stob_run_def split: if_splits)

lemma stob_run_end:
  "stob_run (evs @ [End]) maxSize = on_end (stob_run evs maxSize)"
  by (simp add: stob_run_def)

text \<open>
  Claim C6. For every stream of chunks followed by its end and every \<open>maxSize > 0\<close>,
  \<^verbatim>\<open>stob\<close> rejects with \<^verbatim>\<open>MAX_SIZE_EXCEEDED\<close> and destroys the stream if and only if the
  accumulated byte length strictly exceeds \<open>maxSize\<close>; a total equal to \<open>maxSize\<close>
  resolves with the concatenation; no chunk resolves with the empty buffer and one chunk
  resolves with that chunk. Before the end of the stream the promise is rejected in the
  same case and pending otherwise.
\<close>

theorem stob_max_size:
  assumes "0 < maxSize"
  shows "((stob (map Data cs @ [End]) maxSize = Rejected MAX_SIZE_EXCEEDED
            \<and> destroyed (stob_run (map Data cs @ [End]) maxSize))
          \<longleftrightarrow> maxSize < real (byteLength cs))
       \<and> (stob (map Data cs @ [End]) maxSize = Rejected MAX_SIZE_EXCEEDED
          \<longleftrightarrow> maxSize < real (byteLength cs))
       \<and> (destroyed (stob_run (map Data cs @ [End]) maxSize)
          \<longleftrightarrow> maxSize < real (byteLength cs))
       \<and> (real (byteLength cs) = maxSize \<longrightarrow> stob (map Data cs @ [End]) maxSize = Resolved (concat cs))
       \<and> (real (byteLength cs) \<le> maxSize \<longrightarrow> stob (map Data cs @ [End]) maxSize = Resolved (concat cs))
       \<and> stob [End] maxSize = Resolved []
       \<and> (real (length c) \<le> maxSize \<longrightarrow> stob [Data c, End] maxSize = Resolved c)
       \<and> (stob (map Data cs) maxSize =
            (if maxSize < real (byteLength cs) then Rejected MAX_SIZE_EXCEEDED else Pending))"
proof -
  let ?s = "stob_run (map Data cs) maxSize"
  have main: "if real (byteLength cs) \<le> maxSize
     then stob (map Data cs @ [End]) maxSize = Resolved (concat cs)
          \<and> \<not> destroyed (stob_run (map Data cs @ [End]) maxSize)
          \<and> stob (map Data cs) maxSize = Pending
     else stob (map Data cs @ [End]) maxSize = Rejected MAX_SIZE_EXCEEDED
          \<and> destroyed (stob_run (map Data cs @ [End]) maxSize)
          \<and> stob (map Data cs) maxSize = Rejected MAX_SIZE_EXCEEDED" for cs
  proof (cases "real (byteLength cs) \<le> maxSize")
    case True
    with stob_run_data [OF assms, of cs] have "live (stob_run (map Data cs) maxSize) cs" by simp
    with True show ?thesis
      using on_end_live [of "stob_run (map Data cs) maxSize" cs]
      by (simp add: stob_def stob_run_end live_def)
  next
    case False
    with stob_run_data [OF assms, of cs] have "overflowed (stob_run (map Data cs) maxSize)" by simp
    with False show ?thesis
      by (simp add: stob_def stob_run_end on_end_overflowed) (simp add: overflowed_def)
  qed
  have e: "stob [End] maxSize = Resolved []"
    using main [of "[]"] assms by (simp split: if_splits)
  have one: "real (length c) \<le> maxSize \<longrightarrow> stob [Data c, End] maxSize = Resolved c"
    using main [of "[c]"] by (simp split: if_splits)
  show ?thesis
    using main [of cs] e one by (auto split: if_splits)
qed











theorem stob_max_size_witness:
  "(0::real) < 3
   \<and> stob (map Data [''ab'', ''c''] @ [End]) 3 = Resolved ''abc''
   \<and> \<not> destroyed (stob_run (map Data [''ab'', ''c''] @ [End]) 3)
   \<and> stob (map Data [''ab'', ''cd''] @ [End]) 3 = Rejected MAX_SIZE_EXCEEDED
   \<and> destroyed (stob_run (map Data [''ab'', ''cd''] @ [End]) 3)"
proof -
  have h: "(0::real) < 3" by simp
  show ?thesis
    using h stob_max_size [OF h, of "[''ab'', ''c'']"] stob_max_size [OF h, of "[''ab'', ''cd'']"]
    by simp
qed

section \<open>Repeated headers\<close>

text \<open>
  Claim C1. A header name that arrives once maps to its scalar value. At the second
  arrival the callback wraps the stored scalar as a one-element array and stores that:
  the second value is not in it. From the third arrival on the new value is pushed, so
  three arrivals give the first and the third value.
\<close>

theorem repeated_header_values:
  "extractHeaders \<lparr>forEach = [(''Accept'', ''a'')], getQuery = [], getMethod = [], getUrl = []\<rparr>
     = Obj [(''accept'', Str ''a'')]
   \<and> extractHeaders \<lparr>forEach = [(''Accept'', ''a''), (''accept'', ''b'')],
        getQuery = [], getMethod = [], getUrl = []\<rparr>
     = Obj [(''accept'', Arr [Str ''a''] [])]
   \<and> extractHeaders \<lparr>forEach = [(''Accept'', ''a''), (''accept'', ''b''), (''accept'', ''c'')],
        getQuery = [], getMethod = [], getUrl = []\<rparr>
     = Obj [(''accept'', Arr [Str ''a'', Str ''c''] [])]"
  by code_simp

section \<open>Facts about the lodash paths\<close>

lemma map_of_assoc_put:
  "map_of (assoc_put k v kvs) k' = (if k' = k then Some v else map_of kvs k')"
  by (induction kvs) auto

lemma pathChar_not_digit: "pathChar c \<Longrightarrow> \<not> isDigit c"
  by (auto simp: pathChar_def isDigit_def)

lemma arrayIndex_pathChar:
  assumes "\<exists>c\<in>set n. pathChar c"
  shows "arrayIndex n = None"
proof -
  from assms obtain c where c: "c \<in> set n" "pathChar c" by blast
  then have "\<not> list_all isDigit n"
    by (auto simp: list_all_iff dest: pathChar_not_digit)
  moreover from c have "n \<noteq> ''0''" by (auto simp: pathChar_def)
  ultimately show ?thesis by (simp add: arrayIndex_def reIsUint_def)
qed

lemma pathChar_not_length: "\<exists>c\<in>set n. pathChar c \<Longrightarrow> n \<noteq> ''length''"
  by (auto simp: pathChar_def)

lemma getProp_assign_same:
  "isObject obj \<Longrightarrow> \<not> isArray obj \<or> k \<noteq> ''length'' \<Longrightarrow> getProp (assign obj k v) k = v"
  by (cases obj) (auto simp: map_of_assoc_put nth_append split: option.splits)

lemma hasOwn_assign_other:
  "n \<noteq> k \<Longrightarrow> arrayIndex n = None \<Longrightarrow> hasOwn (assign obj k v) n = hasOwn obj n"
  by (cases obj) (auto simp: map_of_assoc_put split: option.splits)

lemma baseSetLoop_cases:
  "baseSetLoop obj (k # ks) v = obj \<or> (\<exists>x. baseSetLoop obj (k # ks) v = assign obj k x)"
  by (cases ks) (auto simp: Let_def)

lemma hasOwn_baseSetLoop:
  assumes "n \<notin> set (take 1 ks0)" "arrayIndex n = None"
  shows "hasOwn (baseSetLoop obj ks0 v) n = hasOwn obj n"
proof (cases ks0)
  case Nil
  then show ?thesis by simp
next
  case (Cons k ks)
  with assms have "n \<noteq> k" by simp
  with baseSetLoop_cases [of obj k ks v] assms(2) Cons show ?thesis
    by (auto simp: hasOwn_assign_other)
qed

lemma unescape_length: "length (unescape s) \<le> length s"
  by (induction s rule: unescape.induct) auto

lemma scanQuoted_length:
  "scanQuoted q acc s = Some (b, r) \<Longrightarrow> length b + length r + 2 \<le> length acc + length s"
proof (induction q acc s arbitrary: b r rule: scanQuoted.induct)
  case (1 q acc)
  then show ?case by simp
next
  case (2 q acc c cs)
  show ?case
  proof (cases "c = CHR 0x5C")
    case True
    with "2.prems" obtain d ds where cs: "cs = d # ds" "\<not> isLineTerminator d"
        and s: "scanQuoted q (acc @ [c, d]) ds = Some (b, r)"
      by (auto split: list.splits if_splits)
    from "2.IH"(1) [OF True cs s] cs show ?thesis by simp
  next
    case False
    show ?thesis
    proof (cases "c = q")
      case True
      with False "2.prems" show ?thesis by (auto split: list.splits if_splits)
    next
      case nq: False
      with False "2.prems" have s: "scanQuoted q (acc @ [c]) cs = Some (b, r)" by simp
      from "2.IH"(2) [OF False nq s] show ?thesis by simp
    qed
  qed
qed

lemma takeWhile_dropWhile_length:
  "length (takeWhile P xs) + length (dropWhile P xs) = length xs"
  by (metis length_append takeWhile_dropWhile_id)

lemma scanNumber_length:
  assumes "scanNumber s = Some (k, r)"
  shows "length k + length r < length s"
proof -
  define sign where "sign = (if s \<noteq> [] \<and> hd s = CHR ''-'' then ''-'' else '''')"
  define r0 where "r0 = drop (length sign) s"
  define ds where "ds = takeWhile isDigit r0"
  define r1 where "r1 = dropWhile isDigit r0"
  have ls: "length sign + length r0 = length s"
    by (cases s) (auto simp: sign_def r0_def)
  have l0: "length ds + length r1 = length r0"
    by (simp add: ds_def r1_def takeWhile_dropWhile_length)
  from assms have a: "(if ds = [] then None
         else (case r1 of
                 [] \<Rightarrow> None
               | c # r2 \<Rightarrow>
                   if c = CHR '']'' then Some (sign @ ds, r2)
                   else if c = CHR ''.'' then
                     (let fs = takeWhile isDigit r2; r3 = dropWhile isDigit r2
                      in if fs = [] then None
                         else (case r3 of
                                 [] \<Rightarrow> None
                               | e # r4 \<Rightarrow>
                                   if e = CHR '']'' then Some (sign @ ds @ ''.'' @ fs, r4)
                                   else None))
                   else None)) = Some (k, r)"
    unfolding scanNumber_def sign_def r0_def ds_def r1_def Let_def by simp
  then obtain c r2 where r1: "r1 = c # r2" by (auto split: if_splits list.splits)
  show ?thesis
  proof (cases "c = CHR '']''")
    case True
    with a r1 have "k = sign @ ds" "r = r2" by (auto split: if_splits)
    with ls l0 r1 show ?thesis by simp
  next
    case False
    with a r1 obtain e r4 where r3: "dropWhile isDigit r2 = e # r4"
      and k: "k = sign @ ds @ ''.'' @ takeWhile isDigit r2" and r: "r = r4"
      by (auto simp: Let_def split: if_splits list.splits)
    from takeWhile_dropWhile_length [of isDigit r2] r3
    have "length (takeWhile isDigit r2) + Suc (length r4) = length r2" by simp
    with ls l0 r1 k r show ?thesis by simp
  qed
qed

lemma scanBracket_length:
  assumes "scanBracket s = Some (k, r)"
  shows "length k + length r < length s"
proof (cases "scanNumber s")
  case (Some a)
  with assms have "scanNumber s = Some (k, r)" by (simp add: scanBracket_def)
  then show ?thesis by (rule scanNumber_length)
next
  case None
  with assms obtain q r0 b where s: "s = q # r0" and sq: "scanQuoted q [] r0 = Some (b, r)"
    and k: "k = unescape b"
    by (auto simp: scanBracket_def split: list.splits if_splits option.splits)
  from scanQuoted_length [OF sq] unescape_length [of b] s k show ?thesis by simp
qed

text \<open>Every key of a scanned path is free of path syntax or shorter than the input.\<close>

lemma scanPath_keys:
  "seg \<in> set (scanPath s) \<Longrightarrow> (\<forall>c\<in>set seg. \<not> pathChar c) \<or> length seg < length s"
proof (induction s arbitrary: seg rule: scanPath.induct)
  case 1
  then show ?case by simp
next
  case (2 c cs)
  show ?case
  proof (cases "pathChar c")
    case False
    with "2.prems" consider "seg = takeWhile (\<lambda>x. \<not> pathChar x) (c # cs)"
      | "seg \<in> set (scanPath (dropWhile (\<lambda>x. \<not> pathChar x) cs))" by auto
    then show ?thesis
    proof cases
      case 1
      then show ?thesis by (auto dest: set_takeWhileD)
    next
      case 2
      from "2.IH"(1) [OF False 2] length_dropWhile_le [of "\<lambda>x. \<not> pathChar x" cs]
      show ?thesis by auto
    qed
  next
    case True
    show ?thesis
    proof (cases "if c = CHR ''['' then scanBracket cs else None")
      case None
      with True "2.prems" consider "seg = []" | "seg \<in> set (scanPath cs)"
        by (auto split: if_splits)
      then show ?thesis
      proof cases
        case 1
        then show ?thesis by simp
      next
        case 2
        have "(\<forall>c\<in>set seg. \<not> pathChar c) \<or> length seg < length cs"
        proof (cases "emptyKeyAhead (c # cs)")
          case e: True
          from "2.IH"(2) [OF _ None e 2] True show ?thesis by simp
        next
          case e: False
          from "2.IH"(3) [OF _ None e 2] True show ?thesis by simp
        qed
        then show ?thesis by auto
      qed
    next
      case (Some kr)
      obtain key rest where kr: "kr = (key, rest)" by (cases kr)
      with Some have sb: "scanBracket cs = Some (key, rest)" by (auto split: if_splits)
      from True "2.prems" Some kr consider "seg = key" | "seg \<in> set (scanPath rest)"
        by auto
      then show ?thesis
      proof cases
        case 1
        with scanBracket_length [OF sb] show ?thesis by simp
      next
        case 2
        from "2.IH"(4) [OF _ Some kr [symmetric] 2] True scanBracket_length [OF sb]
        show ?thesis by auto
      qed
    qed
  qed
qed

lemma stringToPath_keys:
  assumes "\<exists>c\<in>set n. pathChar c" "seg \<in> set (stringToPath n)"
  shows "seg \<noteq> n"
proof -
  from assms(2) have "seg = [] \<or> seg \<in> set (scanPath n)"
    by (auto simp: stringToPath_def split: if_splits)
  with scanPath_keys [of seg n] assms(1) show ?thesis by auto
qed

lemma scanPath_fields:
  "scanPath (''fields.'' @ n) =
     ''fields'' # (if emptyKeyAhead (CHR ''.'' # n) then [[]] else []) @ scanPath n"
  by (simp add: pathChar_def)

lemma scanPath_files:
  "scanPath (''files.'' @ n) =
     ''files'' # (if emptyKeyAhead (CHR ''.'' # n) then [[]] else []) @ scanPath n"
  by (simp add: pathChar_def)

lemma reIsDeepProp_pathChar: "reIsDeepProp n \<Longrightarrow> \<exists>c\<in>set n. pathChar c"
  by (induction n) (auto simp: pathChar_def)

lemma pathChar_not_word: "pathChar c \<Longrightarrow> \<not> isWordChar c"
  unfolding pathChar_def isWordChar_def by (elim disjE) simp_all

lemma pathChar_not_plain: "\<exists>c\<in>set n. pathChar c \<Longrightarrow> \<not> reIsPlainProp n"
  by (auto simp: reIsPlainProp_def list_all_iff dest: pathChar_not_word)

lemma stringToPath_fields:
  "stringToPath (''fields.'' @ n) =
     ''fields'' # (if emptyKeyAhead (CHR ''.'' # n) then [[]] else []) @ scanPath n"
  using scanPath_fields [of n] by (simp add: stringToPath_def)

lemma stringToPath_files:
  "stringToPath (''files.'' @ n) =
     ''files'' # (if emptyKeyAhead (CHR ''.'' # n) then [[]] else []) @ scanPath n"
  using scanPath_files [of n] by (simp add: stringToPath_def)

lemma scanPath_plain:
  assumes "\<forall>c\<in>set n. \<not> pathChar c"
  shows "scanPath n = (if n = [] then [] else [n])"
proof (cases n)
  case Nil
  then show ?thesis by simp
next
  case (Cons a list)
  with assms have t: "takeWhile (\<lambda>x. \<not> pathChar x) (a # list) = a # list"
    and d: "dropWhile (\<lambda>x. \<not> pathChar x) list = []" and a: "\<not> pathChar a"
    by auto
  from a have "scanPath (a # list) =
      takeWhile (\<lambda>x. \<not> pathChar x) (a # list) # scanPath (dropWhile (\<lambda>x. \<not> pathChar x) list)"
    by (simp only: scanPath.simps not_False_eq_True if_True)
  also have "\<dots> = [a # list]" by (simp only: t d scanPath.simps)
  finally show ?thesis using Cons by simp
qed

lemma emptyKeyAhead_plain:
  "\<forall>c\<in>set n. \<not> pathChar c \<Longrightarrow> emptyKeyAhead (CHR ''.'' # n) = (n = [])"
  by (cases n; cases "tl n") (auto simp: emptyKeyAhead_def pathChar_def)

lemma stringToPath_files_plain:
  assumes "\<forall>c\<in>set n. \<not> pathChar c"
  shows "stringToPath (''files.'' @ n) = [''files'', n]"
  unfolding stringToPath_files scanPath_plain [OF assms] emptyKeyAhead_plain [OF assms]
  by simp

lemma ret_ok_hasOwn: "ret_ok r \<Longrightarrow> hasOwn r k \<Longrightarrow> k = ''fields'' \<or> k = ''files''"
  by (cases r) (auto simp: ret_ok_def list_all_iff dest!: map_of_SomeD)

lemma ret_ok_isObject: "ret_ok r \<Longrightarrow> isObject r"
  by (cases r) (auto simp: ret_ok_def)

lemma not_plain_fields: "\<not> reIsPlainProp (''fields.'' @ n)"
  by (rule pathChar_not_plain) (simp add: pathChar_def)

lemma not_plain_files: "\<not> reIsPlainProp (''files.'' @ n)"
  by (rule pathChar_not_plain) (simp add: pathChar_def)

lemma deep_fields: "reIsDeepProp (''fields.'' @ n)"
  by simp

lemma deep_files: "reIsDeepProp (''files.'' @ n)"
  by simp

lemma castPath_fields:
  assumes "ret_ok r"
  shows "castPath (''fields.'' @ n) r = stringToPath (''fields.'' @ n)"
proof -
  have "\<not> hasOwn r (''fields.'' @ n)"
    using ret_ok_hasOwn [OF assms, of "''fields.'' @ n"] by auto
  then show ?thesis
    unfolding castPath_def isKey_def using not_plain_fields [of n] deep_fields [of n]
    by (simp only: simp_thms if_False)
qed

lemma castPath_files:
  assumes "ret_ok r"
  shows "castPath (''files.'' @ n) r = stringToPath (''files.'' @ n)"
proof -
  have "\<not> hasOwn r (''files.'' @ n)"
    using ret_ok_hasOwn [OF assms, of "''files.'' @ n"] by auto
  then show ?thesis
    unfolding castPath_def isKey_def using not_plain_files [of n] deep_files [of n]
    by (simp only: simp_thms if_False)
qed

lemma list_all_assoc_put:
  "list_all P kvs \<Longrightarrow> P (k, v) \<Longrightarrow> list_all P (assoc_put k v kvs)"
  by (induction kvs) auto

lemma ret_ok_baseSetLoop:
  assumes "ret_ok r" "k = ''fields'' \<or> k = ''files''"
  shows "ret_ok (baseSetLoop r (k # ks) v)"
proof -
  from assms(1) obtain kvs where r: "r = Obj kvs" by (cases r) (auto simp: ret_ok_def)
  from baseSetLoop_cases [of r k ks v] show ?thesis
  proof
    assume "baseSetLoop r (k # ks) v = r"
    with assms show ?thesis by simp
  next
    assume "\<exists>x. baseSetLoop r (k # ks) v = assign r k x"
    then obtain x where "baseSetLoop r (k # ks) v = Obj (assoc_put k x kvs)"
      using r by auto
    with assms r show ?thesis
      by (auto simp: ret_ok_def intro!: list_all_assoc_put)
  qed
qed

lemma ret_ok_set_fields:
  assumes "ret_ok r"
  shows "ret_ok (lodash_set r (''fields.'' @ n) v)"
  unfolding lodash_set_def castPath_fields [OF assms] stringToPath_fields
  using assms by (simp only: ret_ok_isObject not_True_eq_False if_False) (rule ret_ok_baseSetLoop, simp_all)

lemma ret_ok_set_files:
  assumes "ret_ok r"
  shows "ret_ok (lodash_set r (''files.'' @ n) v)"
  unfolding lodash_set_def castPath_files [OF assms] stringToPath_files
  using assms by (simp only: ret_ok_isObject not_True_eq_False if_False) (rule ret_ok_baseSetLoop, simp_all)

section \<open>File parts\<close>

lemma file_outcome_exists:
  assumes "lstat fs (destination e options fi) = Inr stats" "isFile stats \<or> isDirectory stats"
  shows "file_outcome e options r fs fi = (r, fs, False, file' fi)"
  using assms by (simp add: file_outcome_def exists_dest_def Let_def)

text \<open>
  Claim C4. When the destination computed for a file part is already there as a file or
  a directory, the handler of the part writes nothing: the file system, and so the
  content at the destination, is what it was; the accumulator gets no entry; the promise
  of the decoder is not touched; and the part's byte source is resumed, so that all of
  its chunks are drained.
\<close>

theorem existing_destination_skipped:
  assumes "lstat (disk st) (destination e options fi) = Inr stats"
      and "isFile stats \<or> isDirectory stats"
  shows "disk (fb_step e options st (BFile fi)) = disk st
       \<and> nodes (disk (fb_step e options st (BFile fi))) (destination e options fi)
           = nodes (disk st) (destination e options fi)
       \<and> ret (fb_step e options st (BFile fi)) = ret st
       \<and> outcome (fb_step e options st (BFile fi)) = outcome st
       \<and> parts (fb_step e options st (BFile fi))
           = parts st @ [\<lparr>remaining = file' fi, resumed = True\<rparr>]
       \<and> drained (last (parts (fb_step e options st (BFile fi))))"
  using file_outcome_exists [OF assms, of "ret st"]
  by (simp add: on_file_def drained_def)

theorem existing_destination_skipped_witness:
  "lstat (disk (fb_init ex_fs_taken)) (destination ex_env ex_options ex_part) = Inr (File ''old'')
   \<and> nodes (disk (fb_step ex_env ex_options (fb_init ex_fs_taken) (BFile ex_part))) ''/tmp/a.txt''
       = Some (File ''old'')
   \<and> ret (fb_step ex_env ex_options (fb_init ex_fs_taken) (BFile ex_part)) = Obj []
   \<and> outcome (fb_step ex_env ex_options (fb_init ex_fs_taken) (BFile ex_part)) = Pending
   \<and> drained (last (parts (fb_step ex_env ex_options (fb_init ex_fs_taken) (BFile ex_part))))"
proof -
  have d: "destination ex_env ex_options ex_part = ''/tmp/a.txt''"
    by (simp add: destination_def folderOf_def tmpDirOf_def filenameOf_def ex_env_def
        ex_options_def ex_part_def)
  have l: "lstat (disk (fb_init ex_fs_taken)) (destination ex_env ex_options ex_part) = Inr (File ''old'')"
    by (simp add: d lstat_def fb_init_def ex_fs_taken_def)
  have f: "isFile (File ''old'') \<or> isDirectory (File ''old'')" by simp
  have i: "ret (fb_init ex_fs_taken) = Obj []" "outcome (fb_init ex_fs_taken) = Pending"
    "nodes (disk (fb_init ex_fs_taken)) ''/tmp/a.txt'' = Some (File ''old'')"
    by (simp_all add: fb_init_def ex_fs_taken_def)
  note t = existing_destination_skipped [OF l f, unfolded d]
  from t have "nodes (disk (fb_step ex_env ex_options (fb_init ex_fs_taken) (BFile ex_part))) ''/tmp/a.txt''
        = Some (File ''old'')"
    and "ret (fb_step ex_env ex_options (fb_init ex_fs_taken) (BFile ex_part)) = Obj []"
    and "outcome (fb_step ex_env ex_options (fb_init ex_fs_taken) (BFile ex_part)) = Pending"
    using i by (simp_all only:)
  moreover from t
  have "drained (last (parts (fb_step ex_env ex_options (fb_init ex_fs_taken) (BFile ex_part))))"
    by blast
  ultimately show ?thesis using l by (intro conjI)
qed

text \<open>
  The loop of line 271 ends without an exception only for a part that has no chunk: the
  first call of \<^verbatim>\<open>write\<close> throws.
\<close>

lemma write_chunks_ok:
  "write_chunks fs p cs = (fs', True, rest) \<Longrightarrow> cs = [] \<and> fs' = fs \<and> rest = []"
  by (cases cs) (auto simp: fs_write_def)

lemma write_part_ok:
  assumes "write_part e r fs p fi = (r', fs', True, rest)"
  shows "r' = lodash_set r (''files.'' @ fieldname fi)
              (Obj [(''file'', Str p), (''mimetype'', Str (mimetype fi))])
       \<and> rest = [] \<and> file' fi = []"
proof -
  from assms obtain fs2 where w: "write_chunks fs2 p (file' fi) = (fs', True, rest)"
    and r: "r' = lodash_set r (''files.'' @ fieldname fi)
              (Obj [(''file'', Str p), (''mimetype'', Str (mimetype fi))])"
    by (auto simp: write_part_def split: sum.splits prod.splits if_splits)
  from write_chunks_ok [OF w] r show ?thesis by simp
qed

lemma file_outcome_written:
  assumes "file_outcome e options r fs fi = (r', fs', True, rest)"
  shows "write_part e r fs (destination e options fi) fi = (r', fs', True, rest)"
  using assms by (auto simp: file_outcome_def Let_def split: if_splits)

lemma part_with_bytes_not_written:
  assumes "file' fi \<noteq> []"
  shows "\<not> fst (snd (snd (file_outcome e options r fs fi)))"
proof
  assume h: "fst (snd (snd (file_outcome e options r fs fi)))"
  obtain r' fs' w rest where o: "file_outcome e options r fs fi = (r', fs', w, rest)"
    by (cases "file_outcome e options r fs fi") auto
  with h have "file_outcome e options r fs fi = (r', fs', True, rest)" by simp
  from write_part_ok [OF file_outcome_written [OF this]] assms show False by simp
qed

lemma lodash_set_files_plain:
  assumes ok: "ret_ok r" and plain: "\<forall>c\<in>set f. \<not> pathChar c"
  shows "lodash_set r (''files.'' @ f) v = baseSetLoop r [''files'', f] v"
  unfolding lodash_set_def castPath_files [OF ok] stringToPath_files_plain [OF plain]
  using ok by (simp only: ret_ok_isObject not_True_eq_False if_False)

lemma lodash_get_files_plain:
  assumes ok: "ret_ok r" and plain: "\<forall>c\<in>set f. \<not> pathChar c"
  shows "lodash_get r (''files.'' @ f) = walk r [''files'', f]"
proof -
  from ok have "\<not> nullish r" by (cases r) (auto simp: ret_ok_def)
  then show ?thesis
    unfolding lodash_get_def castPath_files [OF ok] stringToPath_files_plain [OF plain]
    by (simp add: baseGet_def)
qed

lemma isObject_assign: "isObject obj \<Longrightarrow> isObject (assign obj k v)"
  by (cases obj) (auto split: option.splits)

lemma isObject_not_nullish: "isObject obj \<Longrightarrow> \<not> nullish obj"
  by (cases obj) auto

lemma get_set_files_plain:
  assumes ok: "ret_ok r" and plain: "\<forall>c\<in>set f. \<not> pathChar c"
      and safe: "\<not> unsafeKey f" and nl: "f \<noteq> ''length''"
  shows "lodash_get (lodash_set r (''files.'' @ f) v) (''files.'' @ f) = v"
proof -
  define child where "child = (let objValue = getProp r ''files''
     in if isObject objValue then objValue else if isIndex f then Arr [] [] else Obj [])"
  have c: "isObject child" by (simp add: child_def Let_def)
  from ok obtain kvs where r: "r = Obj kvs" by (cases r) (auto simp: ret_ok_def)
  have "baseSetLoop r [''files'', f] v = assign r ''files'' (assign child f v)"
    using safe by (simp add: child_def Let_def unsafeKey_def)
  with lodash_set_files_plain [OF ok plain, of v]
  have s: "lodash_set r (''files.'' @ f) v = assign r ''files'' (assign child f v)"
    by (simp only:)
  have ok': "ret_ok (lodash_set r (''files.'' @ f) v)" by (rule ret_ok_set_files [OF ok])
  have g: "getProp (assign r ''files'' (assign child f v)) ''files'' = assign child f v"
    by (rule getProp_assign_same) (simp_all add: r)
  have n: "\<not> nullish (assign child f v)"
    by (rule isObject_not_nullish [OF isObject_assign [OF c]])
  have n': "\<not> nullish (assign r ''files'' (assign child f v))" by (simp add: r)
  have "getProp (assign child f v) f = v"
    by (rule getProp_assign_same [OF c]) (simp add: nl)
  with g n n' show ?thesis
    unfolding lodash_get_files_plain [OF ok' plain] unfolding s by simp
qed

text \<open>
  Claim C3, as amended. For every file part that was written (the flag \<^verbatim>\<open>hasWritten\<close>
  is set), the decoder sets the path \<^verbatim>\<open>files.<fieldName>\<close> of the accumulator to an
  object whose key \<^verbatim>\<open>file\<close> holds the destination and whose key \<^verbatim>\<open>mimetype\<close> holds the
  mime type of the part. For a field name that is one plain key, reading
  \<^verbatim>\<open>files.<fieldName>\<close> back gives that object, and it has no key named \<^verbatim>\<open>path\<close>.
\<close>

theorem written_part_recorded:
  assumes "file_outcome e options r fs fi = (r', fs', True, rest)"
  shows "r' = lodash_set r (''files.'' @ fieldname fi)
              (Obj [(''file'', Str (destination e options fi)), (''mimetype'', Str (mimetype fi))])
       \<and> rest = []
       \<and> (ret_ok r \<and> (\<forall>c\<in>set (fieldname fi). \<not> pathChar c) \<and> \<not> unsafeKey (fieldname fi)
            \<and> fieldname fi \<noteq> ''length''
          \<longrightarrow> lodash_get r' (''files.'' @ fieldname fi)
                = Obj [(''file'', Str (destination e options fi)), (''mimetype'', Str (mimetype fi))]
              \<and> getProp (lodash_get r' (''files.'' @ fieldname fi)) ''file''
                = Str (destination e options fi)
              \<and> getProp (lodash_get r' (''files.'' @ fieldname fi)) ''mimetype''
                = Str (mimetype fi)
              \<and> \<not> hasOwn (lodash_get r' (''files.'' @ fieldname fi)) ''path'')"
proof -
  note w = write_part_ok [OF file_outcome_written [OF assms]]
  from w have r': "r' = lodash_set r (''files.'' @ fieldname fi)
              (Obj [(''file'', Str (destination e options fi)), (''mimetype'', Str (mimetype fi))])"
    by simp
  have "lodash_get r' (''files.'' @ fieldname fi)
                = Obj [(''file'', Str (destination e options fi)), (''mimetype'', Str (mimetype fi))]"
    if "ret_ok r" "\<forall>c\<in>set (fieldname fi). \<not> pathChar c" "\<not> unsafeKey (fieldname fi)"
       "fieldname fi \<noteq> ''length''"
    unfolding r' by (rule get_set_files_plain [OF that])
  with w show ?thesis by simp
qed

theorem written_part_recorded_witness:
  "fst (snd (snd (file_outcome ex_env ex_options (Obj []) ex_fs ex_empty_part)))
   \<and> fst (file_outcome ex_env ex_options (Obj []) ex_fs ex_empty_part)
     = Obj [(''files'', Obj [(''doc'', Obj [(''file'', Str ''/tmp/a.txt''), (''mimetype'', Str ''text/plain'')])])]
   \<and> lodash_get (fst (file_outcome ex_env ex_options (Obj []) ex_fs ex_empty_part)) ''files.doc''
     = Obj [(''file'', Str ''/tmp/a.txt''), (''mimetype'', Str ''text/plain'')]"
proof -
  obtain r' fs' w rest where o: "file_outcome ex_env ex_options (Obj []) ex_fs ex_empty_part = (r', fs', w, rest)"
    by (cases "file_outcome ex_env ex_options (Obj []) ex_fs ex_empty_part") auto
  have hw: "fst (snd (snd (file_outcome ex_env ex_options (Obj []) ex_fs ex_empty_part)))"
    by code_simp
  with o have w: "w = True" by simp
  have d: "destination ex_env ex_options ex_empty_part = ''/tmp/a.txt''"
    by (simp add: destination_def folderOf_def tmpDirOf_def filenameOf_def ex_env_def
        ex_options_def ex_empty_part_def)
  have f: "fieldname ex_empty_part = ''doc''" "mimetype ex_empty_part = ''text/plain''"
    by (simp_all add: ex_empty_part_def)
  have k: "ret_ok (Obj [])" "\<forall>c\<in>set ''doc''. \<not> pathChar c" "\<not> unsafeKey ''doc''" "''doc'' \<noteq> ''length''"
    by (simp_all add: ret_ok_def pathChar_def unsafeKey_def)
  have s: "lodash_set (Obj []) ''files.doc'' (Obj [(''file'', Str ''/tmp/a.txt''), (''mimetype'', Str ''text/plain'')])
    = Obj [(''files'', Obj [(''doc'', Obj [(''file'', Str ''/tmp/a.txt''), (''mimetype'', Str ''text/plain'')])])]"
    by code_simp
  have a: "''files.'' @ ''doc'' = ''files.doc''" by simp
  note t = written_part_recorded [OF o [unfolded w], unfolded d f a]
  from t k have c: "r' = lodash_set (Obj []) ''files.doc''
        (Obj [(''file'', Str ''/tmp/a.txt''), (''mimetype'', Str ''text/plain'')])"
      "lodash_get r' ''files.doc'' = Obj [(''file'', Str ''/tmp/a.txt''), (''mimetype'', Str ''text/plain'')]"
    by blast+
  from c(1) s have r: "r' = Obj [(''files'', Obj [(''doc'', Obj [(''file'', Str ''/tmp/a.txt''), (''mimetype'', Str ''text/plain'')])])]"
    by (simp only:)
  have e: "fst (file_outcome ex_env ex_options (Obj []) ex_fs ex_empty_part) = r'"
    using o by simp
  from hw show ?thesis unfolding e using r c(2) by (intro conjI)
qed

text \<open>
  An empty upload is written: the file is opened and closed, the flag \<^verbatim>\<open>hasWritten\<close> is
  set and the entry is recorded. The entry has the key \<^verbatim>\<open>file\<close>, not \<^verbatim>\<open>path\<close>: reading
  \<^verbatim>\<open>files.doc.path\<close> of the result finds nothing.
\<close>

theorem written_part_has_no_path_key:
  "file' ex_empty_part = []
   \<and> fst (snd (snd (file_outcome ex_env ex_options (Obj []) ex_fs ex_empty_part)))
   \<and> nodes (fst (snd (file_outcome ex_env ex_options (Obj []) ex_fs ex_empty_part))) ''/tmp/a.txt''
       = Some (File [])
   \<and> lodash_get (fst (file_outcome ex_env ex_options (Obj []) ex_fs ex_empty_part)) ''files.doc''
       = Obj [(''file'', Str ''/tmp/a.txt''), (''mimetype'', Str ''text/plain'')]
   \<and> \<not> hasOwn (lodash_get (fst (file_outcome ex_env ex_options (Obj []) ex_fs ex_empty_part)) ''files.doc'') ''path''
   \<and> lodash_get (fst (file_outcome ex_env ex_options (Obj []) ex_fs ex_empty_part)) ''files.doc.path''
       = Undefined"
  by code_simp

section \<open>Names as paths\<close>

lemma scanPath_key_neq:
  assumes "\<exists>c\<in>set n. pathChar c" "seg \<in> set (scanPath n)"
  shows "seg \<noteq> n"
  using scanPath_keys [OF assms(2)] assms(1) by auto

lemma hasOwn_fresh: "\<exists>c\<in>set n. pathChar c \<Longrightarrow> \<not> hasOwn (if b then Arr [] [] else Obj []) n"
  by (simp add: arrayIndex_pathChar pathChar_not_length)

lemma hasOwn_primitive: "\<not> isObject obj \<Longrightarrow> \<exists>c\<in>set n. pathChar c \<Longrightarrow> \<not> hasOwn obj n"
  by (cases obj) (simp_all add: arrayIndex_pathChar pathChar_not_length)

text \<open>
  Setting a path below a property \<open>k0\<close> of the accumulator does not create, under
  \<open>k0\<close>, a key equal to a name with path syntax, when no key of the path is that name.
\<close>

lemma nested_key_not_created:
  assumes r: "r = Obj kvs" and pc: "\<exists>c\<in>set n. pathChar c"
      and ks: "\<forall>k\<in>set ks. k \<noteq> n" and v: "\<not> hasOwn v n" and k0: "\<not> unsafeKey k0"
      and after: "hasOwn (getProp (baseSetLoop r (k0 # ks) v) k0) n"
  shows "hasOwn (getProp r k0) n"
proof (cases ks)
  case Nil
  with k0 r have "getProp (baseSetLoop r (k0 # ks) v) k0 = v"
    by (simp add: map_of_assoc_put)
  with after v show ?thesis by simp
next
  case (Cons k2 ks2)
  define child where "child = (if isObject (getProp r k0) then getProp r k0
     else if isIndex k2 then Arr [] [] else Obj [])"
  have "baseSetLoop r (k0 # ks) v = assign r k0 (baseSetLoop child (k2 # ks2) v)"
    using k0 Cons by (simp add: child_def Let_def)
  then have g: "getProp (baseSetLoop r (k0 # ks) v) k0 = baseSetLoop child (k2 # ks2) v"
    by (simp add: r map_of_assoc_put)
  from ks Cons have "n \<notin> set (take 1 (k2 # ks2))" by auto
  from hasOwn_baseSetLoop [OF this arrayIndex_pathChar [OF pc], of child v] g after
  have c: "hasOwn child n" by simp
  show ?thesis
  proof (cases "isObject (getProp r k0)")
    case True
    with c show ?thesis by (simp add: child_def)
  next
    case False
    with c hasOwn_fresh [OF pc, of "isIndex k2"] show ?thesis by (simp add: child_def)
  qed
qed

lemma fields_keys_neq:
  assumes "\<exists>c\<in>set n. pathChar c"
  shows "\<forall>k\<in>set ((if emptyKeyAhead (CHR ''.'' # n) then [[]] else []) @ scanPath n). k \<noteq> n"
  using assms scanPath_key_neq [OF assms] by auto

lemma set_fields_key_not_created:
  assumes ok: "ret_ok r" and pc: "\<exists>c\<in>set n. pathChar c" and v: "\<not> hasOwn v n"
      and after: "hasOwn (getProp (lodash_set r (''fields.'' @ n) v) ''fields'') n"
  shows "hasOwn (getProp r ''fields'') n"
proof -
  from ok obtain kvs where r: "r = Obj kvs" by (cases r) (auto simp: ret_ok_def)
  have s: "lodash_set r (''fields.'' @ n) v =
      baseSetLoop r (''fields'' # (if emptyKeyAhead (CHR ''.'' # n) then [[]] else []) @ scanPath n) v"
    unfolding lodash_set_def castPath_fields [OF ok] stringToPath_fields
    using ok by (simp only: ret_ok_isObject not_True_eq_False if_False)
  have u: "\<not> unsafeKey ''fields''" by (simp add: unsafeKey_def)
  from nested_key_not_created [OF r pc fields_keys_neq [OF pc] v u] after
  show ?thesis unfolding s by blast
qed

lemma set_files_key_not_created:
  assumes ok: "ret_ok r" and pc: "\<exists>c\<in>set n. pathChar c" and v: "\<not> hasOwn v n"
      and after: "hasOwn (getProp (lodash_set r (''files.'' @ n) v) ''files'') n"
  shows "hasOwn (getProp r ''files'') n"
proof -
  from ok obtain kvs where r: "r = Obj kvs" by (cases r) (auto simp: ret_ok_def)
  have s: "lodash_set r (''files.'' @ n) v =
      baseSetLoop r (''files'' # (if emptyKeyAhead (CHR ''.'' # n) then [[]] else []) @ scanPath n) v"
    unfolding lodash_set_def castPath_files [OF ok] stringToPath_files
    using ok by (simp only: ret_ok_isObject not_True_eq_False if_False)
  have u: "\<not> unsafeKey ''files''" by (simp add: unsafeKey_def)
  from nested_key_not_created [OF r pc fields_keys_neq [OF pc] v u] after
  show ?thesis unfolding s by blast
qed

lemma file_outcome_ret:
  "fst (file_outcome e options r fs fi) = r
   \<or> fst (file_outcome e options r fs fi)
      = lodash_set r (''files.'' @ fieldname fi)
          (Obj [(''file'', Str (destination e options fi)), (''mimetype'', Str (mimetype fi))])"
  by (auto simp: file_outcome_def write_part_def Let_def split: sum.splits prod.splits)

lemma entry_has_no_path_key:
  "\<exists>c\<in>set n. pathChar c \<Longrightarrow> \<not> hasOwn (Obj [(''file'', a), (''mimetype'', b)]) n"
  by (auto simp: pathChar_def)

lemma castPath_deep:
  assumes "reIsDeepProp n" "\<not> hasOwn h n"
  shows "castPath n h = stringToPath n"
  using assms pathChar_not_plain [OF reIsDeepProp_pathChar [OF assms(1)]]
  by (simp add: castPath_def isKey_def)

lemma set_deep_key_not_created:
  assumes d: "reIsDeepProp n" and h: "\<not> hasOwn h n"
  shows "\<not> hasOwn (lodash_set h n v) n"
proof -
  note pc = reIsDeepProp_pathChar [OF d]
  have "n \<notin> set (take 1 (stringToPath n))"
    using stringToPath_keys [OF pc] in_set_takeD [of n 1 "stringToPath n"] by blast
  from hasOwn_baseSetLoop [OF this arrayIndex_pathChar [OF pc], of h v] h
  show ?thesis by (simp add: lodash_set_def castPath_deep [OF d h])
qed

lemma headerStep_set: "\<exists>x. headerStep h (k, v) = lodash_set h (toLowerCase k) x"
  by (auto simp: headerStep_def Let_def)

text \<open>
  Claim C10, as amended. The name of a field is read as a path below \<^verbatim>\<open>fields\<close>,
  and the name of a file part as a path below \<^verbatim>\<open>files\<close>: for a name that contains
  \<^verbatim>\<open>.\<close>, \<^verbatim>\<open>[\<close> or \<^verbatim>\<open>]\<close> the event creates no key equal to the whole name there (a
  field named \<^verbatim>\<open>a.b\<close> gives the nested \<^verbatim>\<open>fields.a.b\<close>). A header name is read as a
  path when it contains \<^verbatim>\<open>.\<close> or a closed bracket group and is not yet a key of the
  header mapping: then no key equal to the whole name is created.
\<close>

theorem names_are_paths:
  "(ret_ok (ret st) \<and> (\<exists>c\<in>set n. pathChar c) \<longrightarrow>
      ret (on_field st n x)
        = baseSetLoop (ret st) (stringToPath (''fields.'' @ n)) (Str x)
      \<and> hd (stringToPath (''fields.'' @ n)) = ''fields''
      \<and> (hasOwn (getProp (ret (on_field st n x)) ''fields'') n
           \<longrightarrow> hasOwn (getProp (ret st) ''fields'') n))
   \<and> (ret_ok r \<and> (\<exists>c\<in>set (fieldname fi). pathChar c) \<longrightarrow>
        (hasOwn (getProp (fst (file_outcome e options r fs fi)) ''files'') (fieldname fi)
           \<longrightarrow> hasOwn (getProp r ''files'') (fieldname fi)))
   \<and> (reIsDeepProp (toLowerCase k) \<and> \<not> hasOwn h (toLowerCase k) \<longrightarrow>
        \<not> hasOwn (headerStep h (k, x)) (toLowerCase k))
   \<and> ret (on_field (fb_init fs) ''a.b'' x)
        = Obj [(''fields'', Obj [(''a'', Obj [(''b'', Str x)])])]"
proof -
  have f1: "ret (on_field st n x)
        = baseSetLoop (ret st) (stringToPath (''fields.'' @ n)) (Str x)"
    if "ret_ok (ret st)"
    unfolding on_field_def lodash_set_def castPath_fields [OF that]
    using that by (simp add: ret_ok_isObject)
  have f2: "hd (stringToPath (''fields.'' @ n)) = ''fields''"
    unfolding stringToPath_fields by simp
  have f3: "hasOwn (getProp (ret st) ''fields'') n"
    if "ret_ok (ret st)" "\<exists>c\<in>set n. pathChar c"
       "hasOwn (getProp (ret (on_field st n x)) ''fields'') n"
  proof -
    have "\<not> hasOwn (Str x) n"
      using that(2) by (simp add: arrayIndex_pathChar pathChar_not_length)
    from set_fields_key_not_created [OF that(1,2) this] that(3) show ?thesis
      by (simp add: on_field_def)
  qed
  have f4: "hasOwn (getProp r ''files'') (fieldname fi)"
    if "ret_ok r" "\<exists>c\<in>set (fieldname fi). pathChar c"
       "hasOwn (getProp (fst (file_outcome e options r fs fi)) ''files'') (fieldname fi)"
    using file_outcome_ret [of e options r fs fi] that(3)
      set_files_key_not_created [OF that(1,2) entry_has_no_path_key [OF that(2)]]
    by auto
  have f5: "\<not> hasOwn (headerStep h (k, x)) (toLowerCase k)"
    if "reIsDeepProp (toLowerCase k)" "\<not> hasOwn h (toLowerCase k)"
    using headerStep_set [of h k x] set_deep_key_not_created [OF that] by auto
  have f6: "ret (on_field (fb_init fs) ''a.b'' x)
        = Obj [(''fields'', Obj [(''a'', Obj [(''b'', Str x)])])]"
    by (simp add: on_field_def fb_init_def lodash_set_def castPath_def isKey_def
        reIsPlainProp_def isWordChar_def stringToPath_def pathChar_def unsafeKey_def
        isIndex_def reIsUint_def isDigit_def emptyKeyAhead_def)
  from f1 f2 f3 f4 f5 f6 show ?thesis by blast
qed

theorem names_are_paths_witness:
  "ret_ok (ret (fb_init ex_fs)) \<and> (\<exists>c\<in>set ''a.b''. pathChar c)
   \<and> ret (on_field (fb_init ex_fs) ''a.b'' ''v'')
       = Obj [(''fields'', Obj [(''a'', Obj [(''b'', Str ''v'')])])]
   \<and> \<not> hasOwn (getProp (ret (on_field (fb_init ex_fs) ''a.b'' ''v'')) ''fields'') ''a.b''
   \<and> reIsDeepProp (toLowerCase ''X.Y'') \<and> \<not> hasOwn (Obj []) (toLowerCase ''X.Y'')
   \<and> \<not> hasOwn (headerStep (Obj []) (''X.Y'', ''v'')) (toLowerCase ''X.Y'')
   \<and> ret_ok (Obj []) \<and> (\<exists>c\<in>set (fieldname (ex_empty_part\<lparr>fieldname := ''up.load''\<rparr>)). pathChar c)
   \<and> \<not> hasOwn (getProp (fst (file_outcome ex_env ex_options (Obj []) ex_fs
                                   (ex_empty_part\<lparr>fieldname := ''up.load''\<rparr>))) ''files'')
          (fieldname (ex_empty_part\<lparr>fieldname := ''up.load''\<rparr>))"
proof -
  have h1: "ret_ok (ret (fb_init ex_fs))" by (simp add: fb_init_def ret_ok_def)
  have h2: "\<exists>c\<in>set ''a.b''. pathChar c" by (simp add: pathChar_def)
  have h3: "\<not> hasOwn (getProp (ret (fb_init ex_fs)) ''fields'') ''a.b''"
    by (simp add: fb_init_def)
  have h4: "reIsDeepProp (toLowerCase ''X.Y'')" by (simp add: toLowerCase_def)
  have h5: "\<not> hasOwn (Obj []) (toLowerCase ''X.Y'')" by simp
  have h6: "ret_ok (Obj [])" by (simp add: ret_ok_def)
  have h7: "\<exists>c\<in>set (fieldname (ex_empty_part\<lparr>fieldname := ''up.load''\<rparr>)). pathChar c"
    by (simp add: pathChar_def)
  have h8: "\<not> hasOwn (getProp (Obj []) ''files'') (fieldname (ex_empty_part\<lparr>fieldname := ''up.load''\<rparr>))"
    by simp
  note t = names_are_paths [where st = "fb_init ex_fs" and n = "''a.b''" and x = "''v''"
      and k = "''X.Y''" and h = "Obj []" and fs = ex_fs and r = "Obj []"
      and fi = "ex_empty_part\<lparr>fieldname := ''up.load''\<rparr>" and e = ex_env and options = ex_options]
  from t h1 h2 h3 h4 h5 h6 h7 h8 show ?thesis by blast
qed

text \<open>
  A header whose name has a bracket but neither a dot nor a closed bracket group is one
  key for lodash: the value is stored under the whole name.
\<close>

theorem bracket_header_is_literal_key:
  "(\<exists>c\<in>set (toLowerCase ''X[''). pathChar c)
   \<and> extractHeaders \<lparr>forEach = [(''X['', ''1'')], getQuery = [], getMethod = [], getUrl = []\<rparr>
       = Obj [(''x['', Str ''1'')]
   \<and> hasOwn (extractHeaders \<lparr>forEach = [(''X['', ''1'')], getQuery = [], getMethod = [], getUrl = []\<rparr>)
        (toLowerCase ''X['')"
  by code_simp

section \<open>The bridge and the abort mark\<close>

lemma registered_step: "registered st \<Longrightarrow> registered (transport_step st ev)"
  by (cases ev) (simp_all add: onData_cb_def onAborted_cb_def)

lemma end_pushed_step:
  "registered st \<Longrightarrow>
   PushNull \<in> set (pushed (transport_step st ev))
     \<longleftrightarrow> PushNull \<in> set (pushed st) \<or> (\<exists>c. ev = Chunk c True)"
  by (cases ev) (auto simp: onData_cb_def onAborted_cb_def)

lemma end_pushed_run:
  "registered st \<Longrightarrow>
   PushNull \<in> set (pushed (foldl transport_step st evs))
     \<longleftrightarrow> PushNull \<in> set (pushed st) \<or> (\<exists>c. Chunk c True \<in> set evs)"
proof (induction evs arbitrary: st)
  case Nil
  then show ?case by simp
next
  case (Cons ev evs)
  from Cons.IH [OF registered_step [OF Cons.prems]] end_pushed_step [OF Cons.prems, of ev]
  show ?case by auto
qed

text \<open>
  Claim C8, as amended. The bridge does not read the abort mark. A pull on the stream,
  for a request marked aborted or not, registers the data callback and nothing else: it
  pushes no chunk and does not end the stream. A chunk that the transport delivers
  afterwards is pushed whatever the mark says, and the stream ends exactly when the
  transport delivers a chunk flagged as the last. A request whose abort is seen before
  \<^verbatim>\<open>parseData\<close> starts its work never gets a bridge: the result is the empty object.
\<close>

theorem bridge_ignores_abort_mark:
  "pushed (read' st) = pushed st
   \<and> isAborted (read' st) = isAborted st
   \<and> pushed (read' (onAborted_cb st)) = pushed st
   \<and> pushed (onData_cb (read' (onAborted_cb st)) chunk isLast)
       = pushed st @ Push chunk # (if isLast then [PushNull] else [])
   \<and> pushed (onAborted_cb st) = pushed st
   \<and> (PushNull \<in> set (pushed (foldl transport_step (read' st) evs))
        \<longleftrightarrow> PushNull \<in> set (pushed st) \<or> (\<exists>c. Chunk c True \<in> set evs))
   \<and> parseData e fs req (res\<lparr>abortedOnRegistration := True\<rparr>) options = (Resolved out_init, fs)"
proof -
  have "registered (read' st)" by (simp add: read'_def)
  from end_pushed_run [OF this, of evs] show ?thesis
    by (simp add: read'_def onAborted_cb_def onData_cb_def parseData_def)
qed

text \<open>
  After the abort callback has run, a pull on the stream leaves it open and empty, and a
  chunk delivered next comes out of the stream as data.
\<close>

theorem aborted_pull_does_not_end_stream:
  "isAborted (onAborted_cb bridge_init)
   \<and> pushed (read' (onAborted_cb bridge_init)) = []
   \<and> PushNull \<notin> set (pushed (read' (onAborted_cb bridge_init)))
   \<and> readable_events (pushed (read' (onAborted_cb bridge_init))) = []
   \<and> readable_events (pushed (onData_cb (read' (onAborted_cb bridge_init)) ''abc'' False))
       = [Data ''abc'']
   \<and> ResDataToStream (onAborted_cb bridge_init)
        \<lparr>abortedOnRegistration = False, transport = [Chunk ''abc'' False]\<rparr> = [Data ''abc'']"
  by (simp add: onAborted_cb_def bridge_init_def read'_def onData_cb_def ResDataToStream_def)

section \<open>The dispatcher and the catch of parseData\<close>

lemma body_metadata: "body (metadata e req options) = None"
  by (simp add: metadata_def out_init_def Let_def)

lemma headers_metadata:
  "opt_body options = Some True \<Longrightarrow> headers (metadata e req options) = Some (extractHeaders req)"
  by (simp add: metadata_def out_init_def Let_def)

lemma parseData_live:
  assumes "opt_body options = Some True" "\<not> abortedOnRegistration res"
  shows "parseData e fs req res options =
     (case decodeBody e options fs res bridge_init (metadata e req options) of
        (Resolved None, fs') \<Rightarrow> (Resolved (metadata e req options), fs')
      | (Resolved (Some b), fs') \<Rightarrow> (Resolved ((metadata e req options)\<lparr>body := Some b\<rparr>), fs')
      | (Rejected err, fs') \<Rightarrow> (Resolved (metadata e req options), fs')
      | (Pending, fs') \<Rightarrow> (Pending, fs'))"
  using assms by (simp add: parseData_def bridge_init_def Let_def)

lemma parseData_never_rejects: "fst (parseData e fs req res options) \<noteq> Rejected err"
  by (auto simp: parseData_def Let_def split: prod.splits promise.splits option.splits)

lemma parseData_catch:
  assumes "opt_body options = Some True" "\<not> abortedOnRegistration res"
      and "fst (decodeBody e options fs res bridge_init (metadata e req options)) = Rejected err"
  shows "fst (parseData e fs req res options) = Resolved (metadata e req options)"
  using assms(3) unfolding parseData_live [OF assms(1,2)]
  by (auto split: prod.splits promise.splits option.splits)

lemma decodeBody_json:
  assumes "contentType out = Inr ''application/json''"
  shows "decodeBody e options fs res st out =
     (case stob (ResDataToStream st res) (maxSizeOf options) of
        Resolved data \<Rightarrow>
          (case JSON_parse e data of
             None \<Rightarrow> (Rejected SyntaxError, fs)
           | Some v \<Rightarrow> (Resolved (Some (Obj [(''fields'', v)])), fs))
      | Rejected err \<Rightarrow> (Rejected err, fs)
      | Pending \<Rightarrow> (Pending, fs))"
  using assms by (simp add: decodeBody_def dispatch_def startsWith_def Let_def)

lemma decodeBody_form:
  assumes "contentType out = Inr ct"
      and "ct = ''application/x-www-form-urlencoded'' \<or> startsWith ct ''multipart/form-data;''"
  shows "decodeBody e options fs res st out =
     (case fetchBody e options fs (busboyHeaders out) (ResDataToStream st res) of
        (Resolved b, fs') \<Rightarrow> (Resolved (Some b), fs')
      | (Rejected err, fs') \<Rightarrow> (Rejected err, fs')
      | (Pending, fs') \<Rightarrow> (Pending, fs'))"
  using assms by (auto simp: decodeBody_def dispatch_def Let_def)

lemma decodeBody_other:
  assumes "contentType out = Inr ct"
      and "ct \<noteq> ''application/x-www-form-urlencoded''" "\<not> startsWith ct ''multipart/form-data;''"
      and "ct \<noteq> ''application/json''"
  shows "decodeBody e options fs res st out = (Resolved None, fs)"
  using assms by (simp add: decodeBody_def dispatch_def Let_def)

lemma decodeBody_type_error:
  assumes "contentType out = Inl err"
  shows "decodeBody e options fs res st out = (Rejected err, fs)"
  using assms by (simp add: decodeBody_def Let_def)

lemma hasOwn_outObject: "\<not> hasOwn (outObject out) ''headers.content-type''"
  by (simp add: outObject_def split: option.splits)

lemma path_content_type: "stringToPath ''headers.content-type'' = [''headers'', ''content-type'']"
  by (simp add: stringToPath_def pathChar_def emptyKeyAhead_def)

lemma castPath_content_type:
  "castPath ''headers.content-type'' (outObject out) = [''headers'', ''content-type'']"
  using hasOwn_outObject [of out]
  by (simp add: castPath_def isKey_def path_content_type reIsPlainProp_def isWordChar_def)

lemma getProp_outObject_headers:
  "getProp (outObject out) ''headers'' = (case headers out of None \<Rightarrow> Undefined | Some h \<Rightarrow> h)"
  by (simp add: outObject_def split: option.splits)

lemma get_content_type:
  "lodash_get (outObject out) ''headers.content-type'' =
     (case headers out of
        None \<Rightarrow> Undefined
      | Some h \<Rightarrow> if nullish h then Undefined else getProp h ''content-type'')"
proof -
  have "\<not> nullish (outObject out)" by (simp add: outObject_def)
  then show ?thesis
    unfolding lodash_get_def castPath_content_type baseGet_def
    by (simp add: getProp_outObject_headers split: option.splits)
qed

lemma isObject_baseSetLoop: "isObject obj \<Longrightarrow> isObject (baseSetLoop obj ks v)"
proof (cases ks)
  case Nil
  assume "isObject obj"
  with Nil show ?thesis by simp
next
  case (Cons k ks')
  assume "isObject obj"
  with baseSetLoop_cases [of obj k ks' v] Cons show ?thesis
    by (auto simp: isObject_assign)
qed

lemma isObject_lodash_set: "isObject obj \<Longrightarrow> isObject (lodash_set obj p v)"
  by (simp add: lodash_set_def isObject_baseSetLoop)

lemma isObject_headerStep: "isObject h \<Longrightarrow> isObject (headerStep h kv)"
  using headerStep_set [of h "fst kv" "snd kv"] by (auto simp: isObject_lodash_set)

lemma isObject_foldl_headerStep: "isObject h \<Longrightarrow> isObject (foldl headerStep h kvs)"
  by (induction kvs arbitrary: h) (simp_all add: isObject_headerStep)

lemma isObject_extractHeaders: "isObject (extractHeaders req)"
  by (simp add: extractHeaders_def isObject_foldl_headerStep)

lemma contentType_of_header:
  assumes "opt_body options = Some True"
  shows "contentType (metadata e req options) =
     (case getProp (extractHeaders req) ''content-type'' of
        Undefined \<Rightarrow> Inr ''application/x-www-form-urlencoded''
      | Str s \<Rightarrow> Inr (trim s)
      | _ \<Rightarrow> Inl TypeError)"
proof -
  have n: "\<not> nullish (extractHeaders req)"
    by (rule isObject_not_nullish [OF isObject_extractHeaders])
  have t: "trim ''application/x-www-form-urlencoded'' = ''application/x-www-form-urlencoded''"
    by (simp add: trim_def isWhiteSpace_def)
  show ?thesis
    unfolding contentType_def lodash_get_default_def get_content_type
      headers_metadata [OF assms]
    using n t by (simp add: Let_def split: jv.splits)
qed

lemma fb_step_pending:
  "\<not> settling ev \<Longrightarrow> outcome st = Pending \<Longrightarrow> outcome (fb_step e options st ev) = Pending"
  by (cases ev) (auto simp: settling_def on_file_def on_field_def split: prod.splits)

lemma fb_foldl_pending:
  "list_all (\<lambda>x. \<not> settling x) pre \<Longrightarrow> outcome st = Pending
    \<Longrightarrow> outcome (foldl (fb_step e options) st pre) = Pending"
  by (induction pre arbitrary: st) (simp_all add: fb_step_pending)

lemma fb_step_rejects:
  "rejection ev = Some er \<Longrightarrow> outcome st = Pending \<Longrightarrow> outcome (fb_step e options st ev) = Rejected er"
  by (cases ev) (auto simp: reject_def split: if_splits)

lemma fb_first_rejection:
  assumes "list_all (\<lambda>x. \<not> settling x) pre" "rejection ev = Some er"
  shows "outcome (fb_run e options fs (pre @ ev # post)) = Rejected er"
proof -
  let ?s = "foldl (fb_step e options) (fb_init fs) pre"
  have "outcome ?s = Pending"
    by (rule fb_foldl_pending [OF assms(1)]) (simp add: fb_init_def)
  from fb_step_rejects [OF assms(2) this]
  have "outcome (fb_step e options ?s ev) = Rejected er" .
  then have "outcome (foldl (fb_step e options) (fb_step e options ?s ev) post) = Rejected er"
    by (simp add: fb_foldl_settled)
  then show ?thesis by (simp add: fb_run_def)
qed

lemma fetchBody_rejected:
  "outcome (fb_run e options fs (busboy e (bodyOptions options) hdrs stream)) = Rejected er
    \<Longrightarrow> fst (fetchBody e options fs hdrs stream) = Rejected er"
  by (simp add: fetchBody_def Let_def)

lemma stob_overflow:
  assumes "0 < maxSize" "maxSize < real (byteLength cs)"
  shows "stob (map Data cs @ [End]) maxSize = Rejected MAX_SIZE_EXCEEDED"
proof -
  from stob_run_data [OF assms(1), of cs] assms(2)
  have o: "overflowed (stob_run (map Data cs) maxSize)" by (simp split: if_splits)
  then show ?thesis
    by (simp add: stob_def stob_run_end on_end_overflowed) (simp add: overflowed_def)
qed

text \<open>
  Claim C5, as amended. For every parse that decodes the body, the content type is the
  value of \<^verbatim>\<open>content-type\<close> in the extracted headers, trimmed of surrounding white
  space, or \<^verbatim>\<open>application/x-www-form-urlencoded\<close> when the headers have none. When it is
  \<^verbatim>\<open>application/x-www-form-urlencoded\<close> or starts with \<^verbatim>\<open>multipart/form-data;\<close> the
  result is that of the form decoder; when it is \<^verbatim>\<open>application/json\<close> the stream is
  buffered, parsed as JSON and recorded as \<^verbatim>\<open>{fields: value}\<close>; for any other content
  type nothing is decoded and the body is absent.
\<close>

theorem content_type_selects_strategy:
  assumes "opt_body options = Some True" and "\<not> abortedOnRegistration res"
      and "contentType (metadata e req options) = Inr ct"
  shows "(getProp (extractHeaders req) ''content-type'' = Undefined
            \<longrightarrow> ct = ''application/x-www-form-urlencoded'')
       \<and> (\<forall>s. getProp (extractHeaders req) ''content-type'' = Str s \<longrightarrow> ct = trim s)
       \<and> (ct = ''application/x-www-form-urlencoded'' \<or> startsWith ct ''multipart/form-data;''
            \<longrightarrow> dispatch ct = TokenizedForm
              \<and> parseData e fs req res options =
                  (case fetchBody e options fs (busboyHeaders (metadata e req options))
                          (ResDataToStream bridge_init res) of
                     (Resolved b, fs') \<Rightarrow> (Resolved ((metadata e req options)\<lparr>body := Some b\<rparr>), fs')
                   | (Rejected err, fs') \<Rightarrow> (Resolved (metadata e req options), fs')
                   | (Pending, fs') \<Rightarrow> (Pending, fs')))
       \<and> (ct = ''application/json''
            \<longrightarrow> dispatch ct = JsonBuffer
              \<and> (\<forall>data v. stob (ResDataToStream bridge_init res) (maxSizeOf options) = Resolved data
                     \<and> JSON_parse e data = Some v
                   \<longrightarrow> parseData e fs req res options
                       = (Resolved ((metadata e req options)\<lparr>body := Some (Obj [(''fields'', v)])\<rparr>), fs)))
       \<and> (ct \<noteq> ''application/x-www-form-urlencoded'' \<and> \<not> startsWith ct ''multipart/form-data;''
            \<and> ct \<noteq> ''application/json''
            \<longrightarrow> dispatch ct = NoDecoding
              \<and> parseData e fs req res options = (Resolved (metadata e req options), fs)
              \<and> body (metadata e req options) = None)"
proof -
  note ch = contentType_of_header [OF assms(1), of e req]
  have c1: "ct = ''application/x-www-form-urlencoded''"
    if "getProp (extractHeaders req) ''content-type'' = Undefined"
    using ch assms(3) that by simp
  have c2: "ct = trim s" if "getProp (extractHeaders req) ''content-type'' = Str s" for s
    using ch assms(3) that by simp
  have c3: "dispatch ct = TokenizedForm
     \<and> parseData e fs req res options =
                  (case fetchBody e options fs (busboyHeaders (metadata e req options))
                          (ResDataToStream bridge_init res) of
                     (Resolved b, fs') \<Rightarrow> (Resolved ((metadata e req options)\<lparr>body := Some b\<rparr>), fs')
                   | (Rejected err, fs') \<Rightarrow> (Resolved (metadata e req options), fs')
                   | (Pending, fs') \<Rightarrow> (Pending, fs'))"
    if "ct = ''application/x-www-form-urlencoded'' \<or> startsWith ct ''multipart/form-data;''"
    unfolding parseData_live [OF assms(1,2)] decodeBody_form [OF assms(3) that]
    using that by (auto simp: dispatch_def split: prod.splits promise.splits)
  have c4: "dispatch ct = JsonBuffer
     \<and> (\<forall>data v. stob (ResDataToStream bridge_init res) (maxSizeOf options) = Resolved data
                     \<and> JSON_parse e data = Some v
                   \<longrightarrow> parseData e fs req res options
                       = (Resolved ((metadata e req options)\<lparr>body := Some (Obj [(''fields'', v)])\<rparr>), fs))"
    if "ct = ''application/json''"
  proof -
    from assms(3) that have j: "contentType (metadata e req options) = Inr ''application/json''"
      by simp
    show ?thesis
      unfolding parseData_live [OF assms(1,2)] decodeBody_json [OF j]
      using that by (simp add: dispatch_def startsWith_def)
  qed
  have c5: "dispatch ct = NoDecoding
              \<and> parseData e fs req res options = (Resolved (metadata e req options), fs)
              \<and> body (metadata e req options) = None"
    if "ct \<noteq> ''application/x-www-form-urlencoded''" "\<not> startsWith ct ''multipart/form-data;''"
       "ct \<noteq> ''application/json''"
    unfolding parseData_live [OF assms(1,2)] decodeBody_other [OF assms(3) that]
    using that by (simp add: dispatch_def body_metadata)
  from c1 c2 c3 c4 c5 show ?thesis by blast
qed

theorem content_type_selects_strategy_witness:
  "opt_body ex_options = Some True \<and> \<not> abortedOnRegistration (ex_res ''{}'')
   \<and> contentType (metadata ex_env (ex_req ''application/json'') ex_options) = Inr ''application/json''
   \<and> parseData ex_env ex_fs (ex_req ''application/json'') (ex_res ''{}'') ex_options
       = (Resolved ((metadata ex_env (ex_req ''application/json'') ex_options)
                     \<lparr>body := Some (Obj [(''fields'', Obj [])])\<rparr>), ex_fs)
   \<and> metadata ex_env (ex_req ''application/json'') ex_options = ex_out ''application/json''
   \<and> contentType (metadata ex_env (ex_req ''text/plain'') ex_options) = Inr ''text/plain''
   \<and> parseData ex_env ex_fs (ex_req ''text/plain'') (ex_res ''{}'') ex_options
       = (Resolved (metadata ex_env (ex_req ''text/plain'') ex_options), ex_fs)
   \<and> contentType (metadata ex_env \<lparr>forEach = [], getQuery = [], getMethod = [], getUrl = []\<rparr> ex_options)
       = Inr ''application/x-www-form-urlencoded''"
proof -
  have h1: "opt_body ex_options = Some True" by (simp add: ex_options_def)
  have h2: "\<not> abortedOnRegistration (ex_res ''{}'')" by (simp add: ex_res_def)
  have h3: "contentType (metadata ex_env (ex_req ''application/json'') ex_options) = Inr ''application/json''"
    by code_simp
  have p3: "contentType (metadata ex_env (ex_req ''text/plain'') ex_options) = Inr ''text/plain''"
    by code_simp
  have p4: "''text/plain'' \<noteq> ''application/x-www-form-urlencoded''"
    "\<not> startsWith ''text/plain'' ''multipart/form-data;''" "''text/plain'' \<noteq> ''application/json''"
    by (simp_all add: startsWith_def)
  from content_type_selects_strategy [OF h1 h2 p3, of ex_fs] p4
  have p5: "parseData ex_env ex_fs (ex_req ''text/plain'') (ex_res ''{}'') ex_options
       = (Resolved (metadata ex_env (ex_req ''text/plain'') ex_options), ex_fs)"
    by blast
  have d0: "contentType (metadata ex_env \<lparr>forEach = [], getQuery = [], getMethod = [], getUrl = []\<rparr> ex_options)
       = Inr ''application/x-www-form-urlencoded''"
    by code_simp
  have s: "stob (ResDataToStream bridge_init (ex_res ''{}'')) (maxSizeOf ex_options) = Resolved ''{}''"
    by code_simp
  have j: "JSON_parse ex_env ''{}'' = Some (Obj [])" by (simp add: ex_env_def)
  have m: "metadata ex_env (ex_req ''application/json'') ex_options = ex_out ''application/json''"
    by code_simp
  from content_type_selects_strategy [OF h1 h2 h3, of ex_fs] s j
  have "parseData ex_env ex_fs (ex_req ''application/json'') (ex_res ''{}'') ex_options
       = (Resolved ((metadata ex_env (ex_req ''application/json'') ex_options)
                     \<lparr>body := Some (Obj [(''fields'', Obj [])])\<rparr>), ex_fs)"
    by blast
  with h1 h2 h3 m p3 p5 d0 show ?thesis by (intro conjI)
qed

text \<open>
  A header value that is not exactly \<^verbatim>\<open>application/json\<close> (it ends with a space) is
  decoded as JSON all the same, because line 191 trims it.
\<close>

theorem padded_json_content_type_is_decoded:
  "''application/json '' \<noteq> ''application/json''
   \<and> getProp (extractHeaders (ex_req ''application/json '')) ''content-type'' = Str ''application/json ''
   \<and> fst (parseData ex_env ex_fs (ex_req ''application/json '') (ex_res ''{}'') ex_options)
       = Resolved ((ex_out ''application/json '')\<lparr>body := Some (Obj [(''fields'', Obj [])])\<rparr>)"
  by code_simp

text \<open>
  Claim C7. \<^verbatim>\<open>parseData\<close> never rejects. When the body-decoding phase fails (an awaited
  promise rejects or an exception is thrown: the JSON text does not parse, the content
  type is not a string) it resolves with the metadata extracted before, and the body is
  absent. The metadata is what the options asked for: the headers, the parsed query, the
  method and the path.
\<close>

theorem decode_failure_keeps_metadata:
  "fst (parseData e fs req res options) \<noteq> Rejected err
   \<and> (opt_body options = Some True \<and> \<not> abortedOnRegistration res
        \<and> fst (decodeBody e options fs res bridge_init (metadata e req options)) = Rejected err
      \<longrightarrow> fst (parseData e fs req res options) = Resolved (metadata e req options)
        \<and> body (metadata e req options) = None)
   \<and> (opt_body options = Some True \<and> \<not> abortedOnRegistration res
        \<and> contentType (metadata e req options) = Inr ''application/json''
        \<and> stob (ResDataToStream bridge_init res) (maxSizeOf options) = Resolved data
        \<and> JSON_parse e data = None
      \<longrightarrow> parseData e fs req res options = (Resolved (metadata e req options), fs))
   \<and> (opt_body options = Some True \<and> \<not> abortedOnRegistration res
        \<and> contentType (metadata e req options) = Inl err
      \<longrightarrow> parseData e fs req res options = (Resolved (metadata e req options), fs))
   \<and> (opt_body options = Some True \<longrightarrow> headers (metadata e req options) = Some (extractHeaders req))
   \<and> (opt_query options = Some True
      \<longrightarrow> query (metadata e req options) = Some (parseQuery e (getQuery req)))
   \<and> (opt_method options = Some True \<longrightarrow> method' (metadata e req options) = Some (getMethod req))
   \<and> (opt_path options = Some True \<longrightarrow> path (metadata e req options) = Some (getUrl req))"
proof -
  have a: "fst (parseData e fs req res options) \<noteq> Rejected err"
    by (rule parseData_never_rejects)
  have b: "fst (parseData e fs req res options) = Resolved (metadata e req options)
        \<and> body (metadata e req options) = None"
    if "opt_body options = Some True" "\<not> abortedOnRegistration res"
       "fst (decodeBody e options fs res bridge_init (metadata e req options)) = Rejected err"
    using parseData_catch [OF that] by (simp add: body_metadata)
  have c: "parseData e fs req res options = (Resolved (metadata e req options), fs)"
    if "opt_body options = Some True" "\<not> abortedOnRegistration res"
       "contentType (metadata e req options) = Inr ''application/json''"
       "stob (ResDataToStream bridge_init res) (maxSizeOf options) = Resolved data"
       "JSON_parse e data = None"
    unfolding parseData_live [OF that(1,2)] decodeBody_json [OF that(3)]
    using that(4,5) by simp
  have d: "parseData e fs req res options = (Resolved (metadata e req options), fs)"
    if "opt_body options = Some True" "\<not> abortedOnRegistration res"
       "contentType (metadata e req options) = Inl err"
    unfolding parseData_live [OF that(1,2)] decodeBody_type_error [OF that(3)]
    by simp
  have m: "opt_body options = Some True \<longrightarrow> headers (metadata e req options) = Some (extractHeaders req)"
    "opt_query options = Some True
      \<longrightarrow> query (metadata e req options) = Some (parseQuery e (getQuery req))"
    "opt_method options = Some True \<longrightarrow> method' (metadata e req options) = Some (getMethod req)"
    "opt_path options = Some True \<longrightarrow> path (metadata e req options) = Some (getUrl req)"
    by (simp_all add: metadata_def out_init_def Let_def)
  from a b c d m show ?thesis by blast
qed

theorem decode_failure_keeps_metadata_witness:
  "opt_body ex_options = Some True \<and> \<not> abortedOnRegistration (ex_res ''oops'')
   \<and> contentType (metadata ex_env (ex_req ''application/json'') ex_options) = Inr ''application/json''
   \<and> stob (ResDataToStream bridge_init (ex_res ''oops'')) (maxSizeOf ex_options) = Resolved ''oops''
   \<and> JSON_parse ex_env ''oops'' = None
   \<and> parseData ex_env ex_fs (ex_req ''application/json'') (ex_res ''oops'') ex_options
       = (Resolved (metadata ex_env (ex_req ''application/json'') ex_options), ex_fs)
   \<and> metadata ex_env (ex_req ''application/json'') ex_options = ex_out ''application/json''"
proof -
  have h1: "opt_body ex_options = Some True" by (simp add: ex_options_def)
  have h2: "\<not> abortedOnRegistration (ex_res ''oops'')" by (simp add: ex_res_def)
  have h3: "contentType (metadata ex_env (ex_req ''application/json'') ex_options) = Inr ''application/json''"
    by code_simp
  have s: "stob (ResDataToStream bridge_init (ex_res ''oops'')) (maxSizeOf ex_options) = Resolved ''oops''"
    by code_simp
  have j: "JSON_parse ex_env ''oops'' = None" by (simp add: ex_env_def)
  have m: "metadata ex_env (ex_req ''application/json'') ex_options = ex_out ''application/json''"
    by code_simp
  from decode_failure_keeps_metadata [where e = ex_env and fs = ex_fs
      and req = "ex_req ''application/json''" and res = "ex_res ''oops''"
      and options = ex_options and data = "''oops''"] h1 h2 h3 s j
  have "parseData ex_env ex_fs (ex_req ''application/json'') (ex_res ''oops'') ex_options
       = (Resolved (metadata ex_env (ex_req ''application/json'') ex_options), ex_fs)"
    by blast
  with h1 h2 h3 s j m show ?thesis by (intro conjI)
qed

text \<open>
  Claim C2, as amended. When the streaming mechanism fails, the promise of the mechanism
  rejects with the error of the failure: \<^verbatim>\<open>stob\<close> with \<^verbatim>\<open>MAX_SIZE_EXCEEDED\<close> when the
  stream exceeds a positive ceiling, \<^verbatim>\<open>fetchBody\<close> with the error of the first handler
  call that settles it (stream error, parts limit, fields limit, files limit, each a
  different error). \<^verbatim>\<open>parseData\<close> awaits that promise inside its \<^verbatim>\<open>try\<close>: the rejection
  is caught and logged, and the call resolves with the metadata, the body absent.
\<close>

theorem stream_failures_are_caught:
  assumes "opt_body options = Some True" and "\<not> abortedOnRegistration res"
  shows "(contentType (metadata e req options) = Inr ''application/json''
            \<and> 0 < maxSizeOf options
            \<and> ResDataToStream bridge_init res = map Data cs @ [End]
            \<and> maxSizeOf options < real (byteLength cs)
          \<longrightarrow> stob (ResDataToStream bridge_init res) (maxSizeOf options) = Rejected MAX_SIZE_EXCEEDED
            \<and> parseData e fs req res options = (Resolved (metadata e req options), fs))
       \<and> (contentType (metadata e req options) = Inr ct \<and> dispatch ct = TokenizedForm
            \<and> busboy e (bodyOptions options) (busboyHeaders (metadata e req options))
                 (ResDataToStream bridge_init res) = pre @ ev # post
            \<and> list_all (\<lambda>x. \<not> settling x) pre \<and> rejection ev = Some er
          \<longrightarrow> fst (fetchBody e options fs (busboyHeaders (metadata e req options))
                      (ResDataToStream bridge_init res)) = Rejected er
            \<and> fst (parseData e fs req res options) = Resolved (metadata e req options))
       \<and> rejection (StreamFinished True) = Some StreamError
       \<and> rejection BPartsLimit = Some PartsLimitError
       \<and> rejection BFieldsLimit = Some FieldsLimitError
       \<and> rejection BFilesLimit = Some FilesLimitError
       \<and> body (metadata e req options) = None"
proof -
  have a: "stob (ResDataToStream bridge_init res) (maxSizeOf options) = Rejected MAX_SIZE_EXCEEDED
            \<and> parseData e fs req res options = (Resolved (metadata e req options), fs)"
    if j: "contentType (metadata e req options) = Inr ''application/json''"
      and p: "0 < maxSizeOf options" and s: "ResDataToStream bridge_init res = map Data cs @ [End]"
      and o: "maxSizeOf options < real (byteLength cs)"
  proof -
    from stob_overflow [OF p o] s
    have r: "stob (ResDataToStream bridge_init res) (maxSizeOf options) = Rejected MAX_SIZE_EXCEEDED"
      by simp
    then show ?thesis
      unfolding parseData_live [OF assms] decodeBody_json [OF j] by simp
  qed
  have b: "fst (fetchBody e options fs (busboyHeaders (metadata e req options))
                      (ResDataToStream bridge_init res)) = Rejected er
            \<and> fst (parseData e fs req res options) = Resolved (metadata e req options)"
    if c: "contentType (metadata e req options) = Inr ct" and d: "dispatch ct = TokenizedForm"
      and t: "busboy e (bodyOptions options) (busboyHeaders (metadata e req options))
                 (ResDataToStream bridge_init res) = pre @ ev # post"
      and n: "list_all (\<lambda>x. \<not> settling x) pre" and r: "rejection ev = Some er"
  proof -
    from d have f: "ct = ''application/x-www-form-urlencoded'' \<or> startsWith ct ''multipart/form-data;''"
      by (auto simp: dispatch_def split: if_splits)
    have fr: "fst (fetchBody e options fs (busboyHeaders (metadata e req options))
                      (ResDataToStream bridge_init res)) = Rejected er"
      by (rule fetchBody_rejected) (simp add: t fb_first_rejection [OF n r])
    then have "fst (decodeBody e options fs res bridge_init (metadata e req options)) = Rejected er"
      unfolding decodeBody_form [OF c f] by (auto split: prod.splits promise.splits)
    from parseData_catch [OF assms this] fr show ?thesis by simp
  qed
  from a b show ?thesis by (simp add: body_metadata)
qed

theorem stream_failures_are_caught_witness:
  "opt_body ex_options = Some True \<and> \<not> abortedOnRegistration (ex_res ''0123456789A'')
   \<and> stob (ResDataToStream bridge_init (ex_res ''0123456789A'')) (maxSizeOf ex_options)
       = Rejected MAX_SIZE_EXCEEDED
   \<and> parseData ex_env ex_fs (ex_req ''application/json'') (ex_res ''0123456789A'') ex_options
       = (Resolved (metadata ex_env (ex_req ''application/json'') ex_options), ex_fs)
   \<and> fst (fetchBody ex_env_limit ex_options ex_fs
             (busboyHeaders (metadata ex_env_limit (ex_req ''multipart/form-data; boundary=x'') ex_options))
             (ResDataToStream bridge_init (ex_res ''0123456789A''))) = Rejected FilesLimitError
   \<and> fst (parseData ex_env_limit ex_fs (ex_req ''multipart/form-data; boundary=x'')
             (ex_res ''0123456789A'') ex_options)
       = Resolved (metadata ex_env_limit (ex_req ''multipart/form-data; boundary=x'') ex_options)"
proof -
  have h1: "opt_body ex_options = Some True" by (simp add: ex_options_def)
  have h2: "\<not> abortedOnRegistration (ex_res ''0123456789A'')" by (simp add: ex_res_def)
  have j: "contentType (metadata ex_env (ex_req ''application/json'') ex_options) = Inr ''application/json''"
    by code_simp
  have p: "0 < maxSizeOf ex_options" by (simp add: maxSizeOf_def ex_options_def)
  have s: "ResDataToStream bridge_init (ex_res ''0123456789A'') = map Data [''0123456789A''] @ [End]"
    by (simp add: ResDataToStream_def ex_res_def read'_def bridge_init_def onData_cb_def)
  have o: "maxSizeOf ex_options < real (byteLength [''0123456789A''])"
    by (simp add: maxSizeOf_def ex_options_def byteLength_def)
  have c: "contentType (metadata ex_env_limit (ex_req ''multipart/form-data; boundary=x'') ex_options)
      = Inr ''multipart/form-data; boundary=x''"
    by code_simp
  have d: "dispatch ''multipart/form-data; boundary=x'' = TokenizedForm"
    by (simp add: dispatch_def startsWith_def)
  have t: "busboy ex_env_limit (bodyOptions ex_options)
      (busboyHeaders (metadata ex_env_limit (ex_req ''multipart/form-data; boundary=x'') ex_options))
      (ResDataToStream bridge_init (ex_res ''0123456789A'')) = [BField ''name'' ''foo''] @ BFilesLimit # [BFinish]"
    by (simp add: ex_env_limit_def)
  have n: "list_all (\<lambda>x. \<not> settling x) [BField ''name'' ''foo'']" by (simp add: settling_def)
  have r: "rejection BFilesLimit = Some FilesLimitError" by simp
  note t1 = stream_failures_are_caught [OF h1 h2, where e = ex_env and fs = ex_fs
      and req = "ex_req ''application/json''" and cs = "[''0123456789A'']"]
  note t2 = stream_failures_are_caught [OF h1 h2, where e = ex_env_limit and fs = ex_fs
      and req = "ex_req ''multipart/form-data; boundary=x''" and ct = "''multipart/form-data; boundary=x''"
      and pre = "[BField ''name'' ''foo'']" and ev = BFilesLimit and post = "[BFinish]"
      and er = FilesLimitError]
  from t1 j p s o
  have a: "stob (ResDataToStream bridge_init (ex_res ''0123456789A'')) (maxSizeOf ex_options)
       = Rejected MAX_SIZE_EXCEEDED"
      "parseData ex_env ex_fs (ex_req ''application/json'') (ex_res ''0123456789A'') ex_options
       = (Resolved (metadata ex_env (ex_req ''application/json'') ex_options), ex_fs)"
    by blast+
  from t2 c d t n r
  have b: "fst (fetchBody ex_env_limit ex_options ex_fs
             (busboyHeaders (metadata ex_env_limit (ex_req ''multipart/form-data; boundary=x'') ex_options))
             (ResDataToStream bridge_init (ex_res ''0123456789A''))) = Rejected FilesLimitError"
      "fst (parseData ex_env_limit ex_fs (ex_req ''multipart/form-data; boundary=x'')
             (ex_res ''0123456789A'') ex_options)
       = Resolved (metadata ex_env_limit (ex_req ''multipart/form-data; boundary=x'') ex_options)"
    by blast+
  from h1 h2 a b show ?thesis by (intro conjI)
qed

text \<open>
  A JSON body one byte over the ceiling: \<^verbatim>\<open>stob\<close> rejects with \<^verbatim>\<open>MAX_SIZE_EXCEEDED\<close>,
  and \<^verbatim>\<open>parseData\<close> resolves, with the metadata and no body. The same for a form whose
  tokenizer reports the files limit.
\<close>

theorem size_overflow_resolves:
  "stob (ResDataToStream bridge_init (ex_res ''0123456789A'')) (maxSizeOf ex_options)
     = Rejected MAX_SIZE_EXCEEDED
   \<and> fst (parseData ex_env ex_fs (ex_req ''application/json'') (ex_res ''0123456789A'') ex_options)
     = Resolved (ex_out ''application/json'')
   \<and> fst (parseData ex_env ex_fs (ex_req ''application/json'') (ex_res ''0123456789A'') ex_options)
     \<noteq> Rejected MAX_SIZE_EXCEEDED
   \<and> fst (parseData ex_env_limit ex_fs (ex_req ''multipart/form-data; boundary=x'')
             (ex_res ''0123456789'') ex_options)
     = Resolved (ex_out ''multipart/form-data; boundary=x'')"
  by code_simp

section \<open>One outcome per parse\<close>




end
